theory Spec2Isabelle
  imports Complex_Main "HOL-Library.Word"
begin

section \<open>Frames and the frames queue\<close>

text \<open>
  A frame is a \<^verbatim>\<open>cv::Mat\<close>. The code reads four things of it: \<^verbatim>\<open>cols\<close>,
  \<^verbatim>\<open>rows\<close> (both \<^verbatim>\<open>int\<close>, only copied and compared with \<open>-1\<close>),
  \<^verbatim>\<open>total()\<close> and \<^verbatim>\<open>elemSize()\<close> (both \<^verbatim>\<open>size_t\<close>, 64 bits on the
  LP64 targets of the program). The pixel buffer is carried along as a list.
\<close>

record frame =
  cols :: int
  rows :: int
  mat_total :: "64 word"
  mat_elemSize :: "64 word"
  pixels :: "nat list"

text \<open>
  \<^verbatim>\<open>boost::lockfree::spsc_queue<cv::Mat>\<close> is a library type. It is modelled by its
  interface: the constructor takes the number of elements the queue can hold,
  \<^verbatim>\<open>push\<close> returns false and stores nothing when that many elements are waiting,
  \<^verbatim>\<open>pop\<close> returns false when none is. Every call is one atomic step here, which is
  the single-producer/single-consumer discipline the library asks for.
\<close>

record spsc_queue =
  max_size :: nat
  items :: "frame list"

definition spsc_queue_new :: "nat \<Rightarrow> spsc_queue" where
  "spsc_queue_new element_count = \<lparr>max_size = element_count, items = []\<rparr>"

definition push :: "spsc_queue \<Rightarrow> frame \<Rightarrow> bool \<times> spsc_queue" where
  "push q t =
     (if length (items q) < max_size q then (True, q\<lparr>items := items q @ [t]\<rparr>)
      else (False, q))"

definition pop :: "spsc_queue \<Rightarrow> (frame \<times> spsc_queue) option" where
  "pop q = (case items q of [] \<Rightarrow> None | t # ts \<Rightarrow> Some (t, q\<lparr>items := ts\<rparr>))"

section \<open>Values of the metadata document\<close>

text \<open>
  A \<^verbatim>\<open>double\<close> is a finite value, held as the rational number it stands for, or
  one of the three special values that a division or an overflow can produce. The two
  zeros are not told apart.
\<close>

datatype double = Finite rat | PosInf | NegInf | NaN

text \<open>
  \<^verbatim>\<open>static_cast<double>(a) / static_cast<double>(b)\<close> for two integers: the
  division of IEEE 754, which does not trap on a zero divisor. The quotient of a
  non-zero divisor is kept exact here; the number stored is the binary64 number nearest
  to it.
\<close>

definition double_div :: "int \<Rightarrow> int \<Rightarrow> double" where
  "double_div a b =
     (if b = 0 then (if a = 0 then NaN else if 0 < a then PosInf else NegInf)
      else Finite (of_int a / of_int b))"

text \<open>
  Rounding a rational number to binary64, to nearest and ties to even, as the
  multiplication of IEEE 754 does with the exact product. A positive number \<open>p / q\<close>
  lies in the binade \<open>e\<close> when \<open>2 ^ e \<le> p / q < 2 ^ (e + 1)\<close>; its significand of 53
  bits is \<open>p / q\<close> scaled by \<open>2 ^ (52 - e)\<close> and rounded to an integer, and below the
  binade \<open>- 1022\<close> the numbers are the subnormal ones, with the spacing of that binade.
\<close>

fun bitlength :: "nat \<Rightarrow> nat" where
  "bitlength n = (if n = 0 then 0 else Suc (bitlength (n div 2)))"

declare bitlength.simps [simp del]

definition pow2 :: "int \<Rightarrow> rat" where
  "pow2 k = (if 0 \<le> k then 2 ^ nat k else 1 / 2 ^ nat (- k))"

text \<open>The fraction \<open>p / q\<close> times \<open>2 ^ k\<close>, as a numerator and a denominator.\<close>

definition scaled :: "int \<Rightarrow> int \<Rightarrow> int \<Rightarrow> int \<times> int" where
  "scaled p q k = (if 0 \<le> k then (p * 2 ^ nat k, q) else (p, q * 2 ^ nat (- k)))"

definition binade :: "int \<Rightarrow> int \<Rightarrow> int" where
  "binade p q =
     (let e = int (bitlength (nat p)) - int (bitlength (nat q));
          (n, d) = scaled p q (- e)
      in if d \<le> n then e else e - 1)"

definition round_even :: "int \<Rightarrow> int \<Rightarrow> int" where
  "round_even n d =
     (let f = n div d; r = n mod d
      in if 2 * r < d then f else if d < 2 * r then f + 1 else if even f then f else f + 1)"

definition round_ratio :: "int \<Rightarrow> int \<Rightarrow> int \<Rightarrow> double" where
  "round_ratio sg p q =
     (let e = max (binade p q) (- 1022);
          m = (case scaled p q (52 - e) of (n, d) \<Rightarrow> round_even n d)
      in if 1024 \<le> (if m = 2 ^ 53 then e + 1 else e) then (if 0 < sg then PosInf else NegInf)
         else Finite (of_int (sg * m) * pow2 (e - 52)))"

definition to_double :: "rat \<Rightarrow> double" where
  "to_double x =
     (if x = 0 then Finite 0
      else case quotient_of \<bar>x\<bar> of (p, q) \<Rightarrow> round_ratio (if 0 < x then 1 else - 1) p q)"

text \<open>The product of two doubles, \<^verbatim>\<open>x * y\<close>.\<close>

definition dmul :: "double \<Rightarrow> double \<Rightarrow> double" where
  "dmul x y =
     (case (x, y) of
        (NaN, _) \<Rightarrow> NaN
      | (_, NaN) \<Rightarrow> NaN
      | (Finite a, Finite b) \<Rightarrow> to_double (a * b)
      | (Finite a, PosInf) \<Rightarrow> (if a = 0 then NaN else if 0 < a then PosInf else NegInf)
      | (Finite a, NegInf) \<Rightarrow> (if a = 0 then NaN else if 0 < a then NegInf else PosInf)
      | (PosInf, Finite b) \<Rightarrow> (if b = 0 then NaN else if 0 < b then PosInf else NegInf)
      | (NegInf, Finite b) \<Rightarrow> (if b = 0 then NaN else if 0 < b then NegInf else PosInf)
      | (PosInf, PosInf) \<Rightarrow> PosInf
      | (PosInf, NegInf) \<Rightarrow> NegInf
      | (NegInf, PosInf) \<Rightarrow> NegInf
      | (NegInf, NegInf) \<Rightarrow> PosInf)"

text \<open>
  A \<^verbatim>\<open>QVariant\<close> as the code stores them: a string, an \<^verbatim>\<open>int\<close>, a
  \<^verbatim>\<open>double\<close>, a nested \<^verbatim>\<open>QVariantMap\<close>, and the ISO-8601 text of an instant,
  kept as the instant (milliseconds since the epoch).
\<close>

datatype variant =
  VString string
  | VInt int
  | VDouble double
  | VDateTime int
  | VMap "string \<Rightarrow> variant option"

type_synonym QVariantMap = "string \<Rightarrow> variant option"

section \<open>The collaborators: imager and configuration\<close>

text \<open>
  \<^verbatim>\<open>Imager::Control\<close> is declared in \<^verbatim>\<open>imager.h\<close>, which is not among the
  sources; the fields below are the ones the constructor of \<^verbatim>\<open>RecordingInformation\<close>
  reads, with the three control types it names. The value of a control, the value of a
  choice and the count of \<^verbatim>\<open>duration_unit\<close> are doubles.
\<close>

datatype control_type = Number | Combo | Bool

record choice =
  label :: string
  choice_value :: double

record control =
  control_name :: string
  control_value :: double
  control_type :: control_type
  choices :: "choice list"
  is_duration :: bool
  duration_unit :: double

record imager =
  imager_name :: string
  controls :: "control list"

text \<open>
  The getters of \<^verbatim>\<open>Configuration\<close> that the code calls (its declaration is not
  among the sources). The frame limit and the memory budget are \<^verbatim>\<open>long long\<close>
  values, held as their 64 bits; the save format is an enumeration, held as its number.
\<close>

record configuration =
  savefile :: string
  save_format :: nat
  save_info_file :: bool
  recording_frames_limit :: "64 word"
  max_memory_usage :: "64 word"
  observer :: string
  telescope :: string

text \<open>
  What the program finds around it: the table \<^verbatim>\<open>FileWriter::factories()\<close>, where a
  factory takes the imager's name and the configuration and makes a writer, of which
  the model keeps the output filename; and whether \<^verbatim>\<open>QFile::open\<close> succeeds on a path.
\<close>

record environment =
  factories :: "nat \<Rightarrow> (string \<Rightarrow> configuration \<Rightarrow> string) option"
  can_open :: "string \<Rightarrow> bool"

section \<open>RecordingInformation\<close>

record RecordingInformation =
  properties :: QVariantMap
  filename :: string
  started :: int

definition types :: "control_type \<Rightarrow> string" where
  "types t = (case t of Number \<Rightarrow> ''number'' | Combo \<Rightarrow> ''combo'' | Bool \<Rightarrow> ''bool'')"

definition units :: "(string \<times> double) list" where
  "units = [(''seconds'', Finite 1), (''milliseconds'', Finite 1000), (''microseconds'', Finite 1000000)]"

text \<open>
  The body of the loop over \<^verbatim>\<open>imager->controls()\<close>: the map stored for one control.
  The value in a unit is \<^verbatim>\<open>setting.value * setting.duration_unit.count() * unit.second\<close>,
  two products taken from left to right, each one rounded.
\<close>

definition setting_value :: "control \<Rightarrow> QVariantMap" where
  "setting_value setting =
     (let m1 = [''value'' \<mapsto> VDouble (control_value setting),
                ''type'' \<mapsto> VString (types (control_type setting))];
          m2 = (if control_type setting = Combo
                then m1(''choices'' \<mapsto>
                       VMap (foldl (\<lambda>m c. m(label c \<mapsto> VDouble (choice_value c)))
                               Map.empty (choices setting)))
                else m1)
      in if control_type setting = Number \<and> is_duration setting
         then foldl (\<lambda>m unit. m((''value_'' @ fst unit) \<mapsto>
                        VDouble (dmul (dmul (control_value setting) (duration_unit setting)) (snd unit))))
                (m2(''type'' \<mapsto> VString ''duration'')) units
         else m2)"

definition camera_settings :: "control list \<Rightarrow> QVariantMap" where
  "camera_settings cs =
     foldl (\<lambda>m setting. m(control_name setting \<mapsto> VMap (setting_value setting))) Map.empty cs"

text \<open>The constructor; \<open>now\<close> is what \<^verbatim>\<open>QDateTime::currentDateTime()\<close> returns.\<close>

definition RecordingInformation_new :: "configuration \<Rightarrow> imager \<Rightarrow> int \<Rightarrow> RecordingInformation" where
  "RecordingInformation_new cfg im now =
     \<lparr>properties =
        [''started'' \<mapsto> VDateTime now,
         ''camera'' \<mapsto> VString (imager_name im),
         ''observer'' \<mapsto> VString (observer cfg),
         ''telescope'' \<mapsto> VString (telescope cfg),
         ''camera-settings'' \<mapsto> VMap (camera_settings (controls im))],
      filename = [],
      started = now\<rparr>"

text \<open>
  \<^verbatim>\<open>QDateTime::secsTo\<close>: the difference in milliseconds divided by 1000 in C++, that
  is, truncated towards zero.
\<close>

definition secsTo :: "int \<Rightarrow> int \<Rightarrow> int" where
  "secsTo a b = sgn (b - a) * (\<bar>b - a\<bar> div 1000)"

definition set_ended :: "int \<Rightarrow> int \<Rightarrow> int \<Rightarrow> int \<Rightarrow> RecordingInformation \<Rightarrow> RecordingInformation" where
  "set_ended now total_frames width height r =
     (let ended = now; elapsed = secsTo (started r) ended
      in r\<lparr>properties := (properties r)
             (''ended'' \<mapsto> VDateTime ended,
              ''total-frames'' \<mapsto> VInt total_frames,
              ''width'' \<mapsto> VInt width,
              ''height'' \<mapsto> VInt height,
              ''mean-fps'' \<mapsto> VDouble (double_div total_frames elapsed))\<rparr>)"

definition set_base_filename :: "string \<Rightarrow> RecordingInformation \<Rightarrow> RecordingInformation" where
  "set_base_filename name r = r\<lparr>filename := name @ ''.txt''\<rparr>"

text \<open>
  The destructor. The second argument is the sequence of documents written so far,
  each with its path; a written document is kept as the map it serialises.
\<close>

definition RecordingInformation_dtor ::
  "environment \<Rightarrow> (string \<times> QVariantMap) list \<Rightarrow> RecordingInformation \<Rightarrow> (string \<times> QVariantMap) list" where
  "RecordingInformation_dtor env written r =
     (if filename r = [] \<or> \<not> can_open env (filename r) then written
      else written @ [(filename r, properties r)])"

section \<open>Signals of SaveImages\<close>

text \<open>
  The signals that \<^verbatim>\<open>saveimages.cpp\<close> emits itself. \<^verbatim>\<open>saveFPS\<close> and
  \<^verbatim>\<open>meanFPS\<close> are raised from inside \<^verbatim>\<open>fps_counter\<close>, on its own timing, and
  are not part of the log.
\<close>

datatype signal =
  Recording string
  | SavedFrames "64 word"
  | DroppedFrames "64 word"
  | Finished

section \<open>WriterThreadWorker\<close>

datatype error = DivisionByZero | NullPointer

text \<open>
  \<^verbatim>\<open>max_memory\<close> is a \<^verbatim>\<open>long long\<close>; in \<^verbatim>\<open>max_memory/imageDataSize\<close> it meets a
  \<^verbatim>\<open>size_t\<close> and is converted to unsigned 64 bits, so the division is the unsigned
  one of words. \<^verbatim>\<open>fileWriterFactory\<close> is the factory with the imager's name bound.
\<close>

record WriterThreadWorker =
  fileWriterFactory :: "configuration \<Rightarrow> string"
  framesQueue :: "spsc_queue option"
  max_frames :: "64 word"
  max_memory :: "64 word"
  dropped_frames :: "64 word"
  recording_information :: "RecordingInformation option"

definition WriterThreadWorker_new ::
  "(configuration \<Rightarrow> string) \<Rightarrow> 64 word \<Rightarrow> 64 word \<Rightarrow> RecordingInformation option \<Rightarrow> WriterThreadWorker" where
  "WriterThreadWorker_new factory maxf maxm ri =
     \<lparr>fileWriterFactory = factory, framesQueue = None, max_frames = maxf, max_memory = maxm,
      dropped_frames = 0, recording_information = ri\<rparr>"

definition imageDataSize :: "frame \<Rightarrow> 64 word" where
  "imageDataSize imageData = mat_total imageData * mat_elemSize imageData"

text \<open>
  \<^verbatim>\<open>WriterThreadWorker::handle\<close> returns the worker and the signals it emitted. The
  integer division by a zero \<^verbatim>\<open>imageDataSize\<close>, which only happens while there is
  no queue yet, stops the program; it is the error branch.
\<close>

definition handle :: "WriterThreadWorker \<Rightarrow> frame \<Rightarrow> error + (WriterThreadWorker \<times> signal list)" where
  "handle w imageData =
     (case (case framesQueue w of
              None \<Rightarrow>
                if imageDataSize imageData = 0 then Inl DivisionByZero
                else Inr (spsc_queue_new (unat (max_memory w div imageDataSize imageData)))
            | Some q \<Rightarrow> Inr q) of
        Inl e \<Rightarrow> Inl e
      | Inr q \<Rightarrow>
          (case push q imageData of
             (True, q') \<Rightarrow> Inr (w\<lparr>framesQueue := Some q'\<rparr>, [])
           | (False, q') \<Rightarrow>
               Inr (w\<lparr>framesQueue := Some q', dropped_frames := dropped_frames w + 1\<rparr>,
                    [DroppedFrames (dropped_frames w + 1)])))"

text \<open>A run of submissions with no pop in between: the calls of \<^verbatim>\<open>handle\<close> in order.\<close>

fun handle_all :: "WriterThreadWorker \<Rightarrow> frame list \<Rightarrow> error + (WriterThreadWorker \<times> signal list)" where
  "handle_all w [] = Inr (w, [])"
| "handle_all w (f # fs) =
     (case handle w f of
        Inl e \<Rightarrow> Inl e
      | Inr (w', ev) \<Rightarrow>
          (case handle_all w' fs of
             Inl e \<Rightarrow> Inl e
           | Inr (w'', ev') \<Rightarrow> Inr (w'', ev @ ev')))"

section \<open>WriterThreadWorker::run and the recording thread\<close>

text \<open>
  The \<^verbatim>\<open>FileWriter\<close> made by the factory: its filename and the frames handed to its
  \<^verbatim>\<open>handle\<close>, in order.
\<close>

record file_writer =
  fw_filename :: string
  fw_frames :: "frame list"

text \<open>The local variables of \<^verbatim>\<open>run\<close> while it is in its loop.\<close>

record run_locals =
  fileWriter :: file_writer
  frames :: "64 word"
  width :: int
  height :: int

text \<open>
  Where \<^verbatim>\<open>recordingThread\<close> is: not running; started, with the call of \<^verbatim>\<open>run\<close>
  queued; or inside \<^verbatim>\<open>run\<close>, at the test of the loop.
\<close>

datatype thread_state = NotRunning | Started | Looping run_locals

text \<open>
  \<^verbatim>\<open>SaveImages::Private\<close> with what the program leaves behind: the signals emitted, in
  order, the metadata documents written, in order, and the number of connections from
  \<^verbatim>\<open>QThread::finished\<close> to \<^verbatim>\<open>SaveImages::finished\<close> made so far (they are never
  disconnected). The record holds one worker, the one \<^verbatim>\<open>d->worker\<close> points to, which
  is the one running in the thread as long as \<^verbatim>\<open>startRecording\<close> is only called
  while the thread is not running.
\<close>

record SaveImages =
  configuration :: configuration
  worker :: "WriterThreadWorker option"
  is_recording :: bool
  recordingThread :: thread_state
  finished_connections :: nat
  emitted :: "signal list"
  written :: "(string \<times> QVariantMap) list"

definition SaveImages_new :: "configuration \<Rightarrow> SaveImages" where
  "SaveImages_new cfg =
     \<lparr>configuration = cfg, worker = None, is_recording = False, recordingThread = NotRunning,
      finished_connections = 0, emitted = [], written = []\<rparr>"

definition writerFactory :: "environment \<Rightarrow> configuration \<Rightarrow> (string \<Rightarrow> configuration \<Rightarrow> string) option" where
  "writerFactory env cfg = (if savefile cfg = [] then None else factories env (save_format cfg))"

text \<open>
  \<^verbatim>\<open>SaveImages::handle\<close>. The call it hands to the thread pool is run here at once,
  as one step: submissions are serialised, in the order of arrival.
\<close>

definition SaveImages_handle :: "frame \<Rightarrow> SaveImages \<Rightarrow> error + SaveImages" where
  "SaveImages_handle imageData s =
     (if \<not> is_recording s then Inr s
      else case worker s of
             None \<Rightarrow> Inl NullPointer
           | Some w \<Rightarrow>
               (case handle w imageData of
                  Inl e \<Rightarrow> Inl e
                | Inr (w', ev) \<Rightarrow> Inr (s\<lparr>worker := Some w', emitted := emitted s @ ev\<rparr>)))"

definition startRecording :: "environment \<Rightarrow> imager \<Rightarrow> int \<Rightarrow> SaveImages \<Rightarrow> SaveImages" where
  "startRecording env im now s =
     (case writerFactory env (configuration s) of
        None \<Rightarrow> s
      | Some factory \<Rightarrow>
          (let cfg = configuration s;
               recording_information =
                 (if save_info_file cfg then Some (RecordingInformation_new cfg im now) else None)
           in s\<lparr>worker := Some (WriterThreadWorker_new (factory (imager_name im))
                                (if recording_frames_limit cfg = 0 then 0x7FFFFFFFFFFFFFFF
                                 else recording_frames_limit cfg)
                                (max_memory_usage cfg) recording_information),
                finished_connections := Suc (finished_connections s),
                is_recording := True,
                recordingThread := Started\<rparr>))"

definition endRecording :: "SaveImages \<Rightarrow> SaveImages" where
  "endRecording s = s\<lparr>is_recording := False\<rparr>"

text \<open>\<^verbatim>\<open>run\<close> up to its loop: the writer is made, the filename bound, \<^verbatim>\<open>recording\<close> emitted.\<close>

definition run_enter :: "WriterThreadWorker \<Rightarrow> SaveImages \<Rightarrow> SaveImages" where
  "run_enter w s =
     (let fw = \<lparr>fw_filename = fileWriterFactory w (configuration s), fw_frames = []\<rparr>
      in s\<lparr>worker := Some (w\<lparr>recording_information :=
                                map_option (set_base_filename (fw_filename fw)) (recording_information w)\<rparr>),
           emitted := emitted s @ [Recording (fw_filename fw)],
           recordingThread := Looping \<lparr>fileWriter = fw, frames = 0, width = - 1, height = - 1\<rparr>\<rparr>)"

text \<open>One pass through the body of the loop: a frame is popped and written, or the thread sleeps.\<close>

definition run_body :: "WriterThreadWorker \<Rightarrow> run_locals \<Rightarrow> SaveImages \<Rightarrow> SaveImages" where
  "run_body w l s =
     (case (case framesQueue w of None \<Rightarrow> None | Some q \<Rightarrow> pop q) of
        Some (frame, q') \<Rightarrow>
          s\<lparr>worker := Some (w\<lparr>framesQueue := Some q'\<rparr>),
            emitted := emitted s @ [SavedFrames (frames l + 1)],
            recordingThread := Looping
              \<lparr>fileWriter = (fileWriter l)\<lparr>fw_frames := fw_frames (fileWriter l) @ [frame]\<rparr>,
               frames = frames l + 1,
               width = (if width l = - 1 \<or> height l = - 1 then cols frame else width l),
               height = (if width l = - 1 \<or> height l = - 1 then rows frame else height l)\<rparr>\<rparr>
      | None \<Rightarrow> s)"

text \<open>
  After the loop: the session is finalised. \<^verbatim>\<open>frames\<close> is passed to an \<^verbatim>\<open>int\<close>
  parameter, which keeps its low 32 bits, read as signed.
\<close>

definition run_leave :: "int \<Rightarrow> run_locals \<Rightarrow> WriterThreadWorker \<Rightarrow> WriterThreadWorker" where
  "run_leave now l w =
     w\<lparr>recording_information :=
         map_option (set_ended now (sint (ucast (frames l) :: 32 word)) (width l) (height l))
           (recording_information w)\<rparr>"

text \<open>
  The rest of \<^verbatim>\<open>run\<close>: \<^verbatim>\<open>finished\<close> is emitted, the session released (its destructor
  writes the document), the thread told to quit. The thread then finishes, which calls
  \<^verbatim>\<open>SaveImages::finished\<close> once for every connection made by \<^verbatim>\<open>startRecording\<close>.
\<close>

definition run_close :: "environment \<Rightarrow> WriterThreadWorker \<Rightarrow> SaveImages \<Rightarrow> SaveImages" where
  "run_close env w s =
     s\<lparr>emitted := emitted s @ [Finished] @ replicate (finished_connections s) Finished,
       written := (case recording_information w of
                     None \<Rightarrow> written s
                   | Some r \<Rightarrow> RecordingInformation_dtor env (written s) r),
       worker := Some (w\<lparr>recording_information := None\<rparr>),
       recordingThread := NotRunning\<rparr>"

text \<open>
  One step of the recording thread: entering \<^verbatim>\<open>run\<close>, or one test of the loop
  condition followed by the body or, when the test fails, by the rest of \<^verbatim>\<open>run\<close>,
  which starts with clearing the flag. \<open>now\<close> is the clock the exit reads.
\<close>

definition thread_step :: "environment \<Rightarrow> int \<Rightarrow> SaveImages \<Rightarrow> SaveImages" where
  "thread_step env now s =
     (case worker s of
        None \<Rightarrow> s
      | Some w \<Rightarrow>
          (case recordingThread s of
             NotRunning \<Rightarrow> s
           | Started \<Rightarrow> run_enter w s
           | Looping l \<Rightarrow>
               if is_recording s \<and> frames l < max_frames w then run_body w l s
               else run_close env (run_leave now l w) (s\<lparr>is_recording := False\<rparr>)))"

section \<open>Sessions as sequences of steps\<close>

datatype action =
  StartRecording imager int
  | HandleFrame frame
  | EndRecording
  | ThreadStep int

fun step :: "environment \<Rightarrow> action \<Rightarrow> SaveImages \<Rightarrow> error + SaveImages" where
  "step env (StartRecording im now) s = Inr (startRecording env im now s)"
| "step env (HandleFrame f) s = SaveImages_handle f s"
| "step env EndRecording s = Inr (endRecording s)"
| "step env (ThreadStep now) s = Inr (thread_step env now s)"

fun exec :: "environment \<Rightarrow> action list \<Rightarrow> SaveImages \<Rightarrow> error + SaveImages" where
  "exec env [] s = Inr s"
| "exec env (a # as) s = (case step env a s of Inl e \<Rightarrow> Inl e | Inr s' \<Rightarrow> exec env as s')"

text \<open>Whether an action is a call of \<^verbatim>\<open>startRecording\<close>.\<close>

fun is_start :: "action \<Rightarrow> bool" where
  "is_start (StartRecording im now) = True"
| "is_start a = False"

text \<open>
  A session: \<^verbatim>\<open>startRecording\<close> is called on a controller whose recording thread is
  not running, and the steps that follow, none of them a further \<^verbatim>\<open>startRecording\<close>,
  all return. This is where the one worker of the record describes the program.
\<close>

definition session :: "environment \<Rightarrow> SaveImages \<Rightarrow> imager \<Rightarrow> int \<Rightarrow> action list \<Rightarrow> SaveImages \<Rightarrow> bool" where
  "session env s0 im t0 acts s \<longleftrightarrow>
     recordingThread s0 = NotRunning \<and> filter is_start acts = [] \<and>
     exec env (StartRecording im t0 # acts) s0 = Inr s"

text \<open>The frames submitted by a schedule, in the order of submission.\<close>

fun arrivals :: "action list \<Rightarrow> frame list" where
  "arrivals [] = []"
| "arrivals (HandleFrame f # as) = f # arrivals as"
| "arrivals (a # as) = arrivals as"

text \<open>
  A consumer that keeps up with a queue of \<open>C\<close> frames, in a schedule of submissions and
  steps of the recording thread that follows \<^verbatim>\<open>startRecording\<close>: every frame
  submitted finds fewer than \<open>C\<close> frames waiting. \<open>n\<close> counts the frames waiting: a
  submission adds one; the first step of the thread enters \<^verbatim>\<open>run\<close> and takes none;
  each later step takes one, if there is one. A schedule with \<^verbatim>\<open>endRecording\<close> or
  a further \<^verbatim>\<open>startRecording\<close> in it is not of this kind.
\<close>

fun keeps_up :: "nat \<Rightarrow> bool \<Rightarrow> nat \<Rightarrow> action list \<Rightarrow> bool" where
  "keeps_up C entered n [] = True"
| "keeps_up C entered n (HandleFrame f # as) = (n < C \<and> keeps_up C entered (Suc n) as)"
| "keeps_up C entered n (ThreadStep now # as) = keeps_up C True (if entered then n - 1 else n) as"
| "keeps_up C entered n (a # as) = False"

text \<open>The frames still waiting at the end of such a schedule, counted the same way.\<close>

fun backlog :: "bool \<Rightarrow> nat \<Rightarrow> action list \<Rightarrow> nat" where
  "backlog entered n [] = n"
| "backlog entered n (HandleFrame f # as) = backlog entered (Suc n) as"
| "backlog entered n (ThreadStep now # as) = backlog True (if entered then n - 1 else n) as"
| "backlog entered n (a # as) = backlog entered n as"

text \<open>Whether the recording thread has taken a step, and so entered \<^verbatim>\<open>run\<close>.\<close>

fun run_entered :: "bool \<Rightarrow> action list \<Rightarrow> bool" where
  "run_entered entered [] = entered"
| "run_entered entered (ThreadStep now # as) = run_entered True as"
| "run_entered entered (a # as) = run_entered entered as"

text \<open>The frames in the queue of a worker, oldest first; none while there is no queue.\<close>

definition queued :: "WriterThreadWorker \<Rightarrow> frame list" where
  "queued w = (case framesQueue w of None \<Rightarrow> [] | Some q \<Rightarrow> items q)"

text \<open>
  What holds along such a schedule, after the frames \<open>prev\<close> have been submitted and
  with \<open>n\<close> of them waiting: no frame was dropped, the queue has the capacity \<open>C\<close> and
  holds the last \<open>n\<close> frames, the writer has received the others, in order, and
  \<^verbatim>\<open>savedFrames\<close> was emitted for each of them. The thread has stopped only if the
  frames written have reached the ceiling \<open>maxf\<close>.
\<close>

definition fifo_inv ::
  "nat \<Rightarrow> 64 word \<Rightarrow> 64 word \<Rightarrow> signal list \<Rightarrow> string \<Rightarrow> nat \<Rightarrow> bool \<Rightarrow> nat \<Rightarrow> frame list \<Rightarrow> SaveImages \<Rightarrow> bool" where
  "fifo_inv C maxf mm ev0 name fc entered n prev s \<longleftrightarrow>
     n \<le> length prev \<and> finished_connections s = fc \<and>
     (case worker s of
        None \<Rightarrow> False
      | Some w \<Rightarrow>
          dropped_frames w = 0 \<and> max_frames w = maxf \<and> max_memory w = mm \<and>
          fileWriterFactory w (configuration s) = name \<and>
          (case framesQueue w of
             None \<Rightarrow> prev = []
           | Some q \<Rightarrow> max_size q = C \<and> items q = drop (length prev - n) prev)) \<and>
     (case recordingThread s of
        Started \<Rightarrow> \<not> entered \<and> is_recording s \<and> n = length prev \<and> emitted s = ev0
      | Looping l \<Rightarrow>
          entered \<and> is_recording s \<and>
          fw_frames (fileWriter l) = take (length prev - n) prev \<and>
          unat (frames l) = length prev - n \<and>
          emitted s = ev0 @ Recording name #
                        map (\<lambda>k. SavedFrames (1 + of_nat k)) [0..<length prev - n]
      | NotRunning \<Rightarrow>
          entered \<and> \<not> is_recording s \<and> n = 0 \<and> length prev = unat maxf \<and>
          emitted s = ev0 @ Recording name #
                        map (\<lambda>k. SavedFrames (1 + of_nat k)) [0..<length prev] @
                        Finished # replicate fc Finished)"

text \<open>
  What holds of the recording thread all through a session: while it runs there is a
  worker and a connection to \<^verbatim>\<open>SaveImages::finished\<close>; in the loop, \<^verbatim>\<open>frames\<close>
  counts the frames handed to the writer, the dimensions are still \<open>-1\<close> while no
  frame has been written, and a session, if there is one, has its filename.
\<close>

definition loop_inv :: "SaveImages \<Rightarrow> bool" where
  "loop_inv s =
     (case recordingThread s of
        NotRunning \<Rightarrow> True
      | Started \<Rightarrow> worker s \<noteq> None \<and> 1 \<le> finished_connections s
      | Looping l \<Rightarrow>
          1 \<le> finished_connections s \<and>
          frames l = of_nat (length (fw_frames (fileWriter l))) \<and>
          (fw_frames (fileWriter l) = [] \<longrightarrow> width l = - 1 \<and> height l = - 1) \<and>
          (\<exists>w. worker s = Some w \<and> (\<forall>r. recording_information w = Some r \<longrightarrow> filename r \<noteq> [])))"

text \<open>
  While the thread of a session started at \<open>t0\<close> runs, the session's metadata, if
  there is one, has \<open>t0\<close> as its start.
\<close>

definition started_inv :: "int \<Rightarrow> SaveImages \<Rightarrow> bool" where
  "started_inv t0 s =
     (case recordingThread s of
        NotRunning \<Rightarrow> True
      | _ \<Rightarrow> (case worker s of
                None \<Rightarrow> True
              | Some w \<Rightarrow> (case recording_information w of None \<Rightarrow> True | Some r \<Rightarrow> started r = t0)))"

text \<open>
  While the thread of a session runs, the documents written are those that were there
  when the session started; in the loop, the session's metadata, if there is one, has
  the writer's filename with \<^verbatim>\<open>.txt\<close> appended.
\<close>

definition pending_inv :: "(string \<times> QVariantMap) list \<Rightarrow> SaveImages \<Rightarrow> bool" where
  "pending_inv docs s =
     (case recordingThread s of
        NotRunning \<Rightarrow> True
      | Started \<Rightarrow> written s = docs
      | Looping l \<Rightarrow>
          written s = docs \<and>
          (case worker s of
             None \<Rightarrow> False
           | Some w \<Rightarrow>
               (case recording_information w of
                  None \<Rightarrow> True
                | Some r \<Rightarrow> filename r = fw_filename (fileWriter l) @ ''.txt'')))"

section \<open>Example inputs\<close>

text \<open>
  A writer factory that names its output after the configured file and the camera, an
  environment that has it under format 0 and where one path cannot be opened, a
  configuration with a ceiling of 5 frames and a budget of 1000 bytes, a camera with an
  exposure control of 20 units of \<^verbatim>\<open>0.001\<close> (\<open>millisecond\<close> is the double that this
  literal denotes), and frames of 100 bytes.
\<close>

definition ser_factory :: "string \<Rightarrow> configuration \<Rightarrow> string" where
  "ser_factory name cfg = savefile cfg @ ''_'' @ name @ ''.ser''"

definition example_env :: environment where
  "example_env =
     \<lparr>factories = (\<lambda>format. if format = 0 then Some ser_factory else None),
      can_open = (\<lambda>path. path \<noteq> ''ro_cam.ser.txt'')\<rparr>"

text \<open>The same environment with no path that can be opened.\<close>

definition closed_env :: environment where
  "closed_env = example_env\<lparr>can_open := (\<lambda>path. False)\<rparr>"

definition example_configuration :: configuration where
  "example_configuration =
     \<lparr>savefile = ''out'', save_format = 0, save_info_file = True, recording_frames_limit = 5,
      max_memory_usage = 1000, observer = ''observer'', telescope = ''telescope''\<rparr>"

definition millisecond :: double where
  "millisecond = Finite (1152921504606847 / 1152921504606846976)"

definition exposure :: control where
  "exposure =
     \<lparr>control_name = ''exposure'', control_value = Finite 20, control_type = Number, choices = [],
      is_duration = True, duration_unit = millisecond\<rparr>"

definition example_imager :: imager where
  "example_imager = \<lparr>imager_name = ''cam'', controls = [exposure]\<rparr>"

text \<open>
  For the snapshot of the controls: a switch that bears the name of the exposure control
  and follows it, and an exposure of 9 units.
\<close>

definition exposure_switch :: control where
  "exposure_switch =
     \<lparr>control_name = ''exposure'', control_value = Finite 1, control_type = Bool, choices = [],
      is_duration = False, duration_unit = Finite 1\<rparr>"

definition shadowed_imager :: imager where
  "shadowed_imager = \<lparr>imager_name = ''cam'', controls = [exposure, exposure_switch]\<rparr>"

definition short_exposure :: control where
  "short_exposure = exposure\<lparr>control_value := Finite 9\<rparr>"

definition short_imager :: imager where
  "short_imager = \<lparr>imager_name = ''cam'', controls = [short_exposure]\<rparr>"

definition example_frame :: "nat \<Rightarrow> frame" where
  "example_frame n = \<lparr>cols = 10, rows = 10, mat_total = 100, mat_elemSize = 1, pixels = [n]\<rparr>"

text \<open>
  A schedule in which two frames arrive before the recording thread has entered
  \<^verbatim>\<open>run\<close>, and a third while the second is still waiting.
\<close>

definition bursty_schedule :: "action list" where
  "bursty_schedule =
     [HandleFrame (example_frame 1), HandleFrame (example_frame 2), ThreadStep 1, ThreadStep 2,
      HandleFrame (example_frame 3), ThreadStep 3, ThreadStep 4]"

text \<open>
  Two states of a session on these inputs, started at time 0 and ended by
  \<^verbatim>\<open>endRecording\<close>, with the recording thread about to test its loop condition: one
  after a frame was written, one with no frame at all.
\<close>

definition example_information :: RecordingInformation where
  "example_information =
     set_base_filename ''out_cam.ser'' (RecordingInformation_new example_configuration example_imager 0)"

definition example_worker :: "spsc_queue option \<Rightarrow> WriterThreadWorker" where
  "example_worker q =
     \<lparr>fileWriterFactory = ser_factory ''cam'', framesQueue = q, max_frames = 5, max_memory = 1000,
      dropped_frames = 0, recording_information = Some example_information\<rparr>"

definition one_frame_locals :: run_locals where
  "one_frame_locals =
     \<lparr>fileWriter = \<lparr>fw_filename = ''out_cam.ser'', fw_frames = [example_frame 1]\<rparr>,
      frames = 1, width = 10, height = 10\<rparr>"

definition no_frame_locals :: run_locals where
  "no_frame_locals =
     \<lparr>fileWriter = \<lparr>fw_filename = ''out_cam.ser'', fw_frames = []\<rparr>,
      frames = 0, width = - 1, height = - 1\<rparr>"

definition ended_session :: SaveImages where
  "ended_session =
     \<lparr>configuration = example_configuration,
      worker = Some (example_worker (Some \<lparr>max_size = 10, items = []\<rparr>)),
      is_recording = False,
      recordingThread = Looping one_frame_locals,
      finished_connections = 1,
      emitted = [Recording ''out_cam.ser'', SavedFrames 1],
      written = []\<rparr>"

definition empty_session :: SaveImages where
  "empty_session =
     \<lparr>configuration = example_configuration,
      worker = Some (example_worker None),
      is_recording = False,
      recordingThread = Looping no_frame_locals,
      finished_connections = 1,
      emitted = [Recording ''out_cam.ser''],
      written = []\<rparr>"

section \<open>The queue under a run of submissions\<close>

lemma handle_queue_present:
  assumes "framesQueue w = Some q"
  shows "handle w f =
     (if length (items q) < max_size q
      then Inr (w\<lparr>framesQueue := Some (q\<lparr>items := items q @ [f]\<rparr>)\<rparr>, [])
      else Inr (w\<lparr>framesQueue := Some q, dropped_frames := dropped_frames w + 1\<rparr>,
                [DroppedFrames (dropped_frames w + 1)]))"
  using assms by (simp add: handle_def push_def)

lemma handle_queue_absent:
  assumes "framesQueue w = None" and "imageDataSize f \<noteq> 0"
  shows "handle w f =
     handle (w\<lparr>framesQueue := Some (spsc_queue_new (unat (max_memory w div imageDataSize f)))\<rparr>) f"
  using assms by (simp add: handle_def push_def)

lemma handle_empty_first_frame:
  assumes "framesQueue w = None" and "imageDataSize f = 0"
  shows "handle w f = Inl DivisionByZero"
  using assms by (simp add: handle_def)

lemma handle_all_queue_present:
  assumes "framesQueue w = Some q" and "length (items q) \<le> max_size q"
  shows "handle_all w fs =
     Inr (w\<lparr>framesQueue := Some (q\<lparr>items := items q @ take (max_size q - length (items q)) fs\<rparr>),
            dropped_frames := dropped_frames w + of_nat (length fs - (max_size q - length (items q)))\<rparr>,
          map (\<lambda>k. DroppedFrames (dropped_frames w + 1 + of_nat k))
            [0..<length fs - (max_size q - length (items q))])"
  using assms
proof (induction fs arbitrary: w q)
  case Nil
  then show ?case by simp
next
  case (Cons f fs)
  show ?case
  proof (cases "length (items q) < max_size q")
    case True
    let ?q = "q\<lparr>items := items q @ [f]\<rparr>"
    let ?w = "w\<lparr>framesQueue := Some ?q\<rparr>"
    have h: "handle w f = Inr (?w, [])"
      using Cons.prems True by (simp add: handle_queue_present)
    have "framesQueue ?w = Some ?q" "length (items ?q) \<le> max_size ?q"
      using True by simp_all
    note ih = Cons.IH [OF this]
    obtain r where r: "max_size q - length (items q) = Suc r"
      using True by (metis Suc_diff_Suc)
    then have r': "max_size q - Suc (length (items q)) = r" by simp
    show ?thesis
      using ih h r r' by simp
  next
    case False
    then have full: "max_size q - length (items q) = 0" by simp
    let ?w = "w\<lparr>framesQueue := Some q, dropped_frames := dropped_frames w + 1\<rparr>"
    have h: "handle w f = Inr (?w, [DroppedFrames (dropped_frames w + 1)])"
      using Cons.prems False by (simp add: handle_queue_present)
    have "framesQueue ?w = Some q" by simp
    note ih = Cons.IH [OF this Cons.prems(2)]
    show ?thesis
      using ih h full by (simp add: map_upt_Suc add.assoc add.commute del: upt_Suc)
  qed
qed

section \<open>Invariants of the recording thread\<close>

lemma handle_recording_information:
  "handle w f = Inr (w', ev) \<Longrightarrow> recording_information w' = recording_information w"
  by (auto simp: handle_def push_def split: option.splits if_splits)

lemma loop_inv_handle:
  assumes "loop_inv s" and "SaveImages_handle f s = Inr s'"
  shows "loop_inv s'"
proof (cases "is_recording s")
  case False
  with assms show ?thesis by (simp add: SaveImages_handle_def)
next
  case True
  with assms(2) obtain w w' ev where w: "worker s = Some w" "handle w f = Inr (w', ev)"
    and s': "s' = s\<lparr>worker := Some w', emitted := emitted s @ ev\<rparr>"
    by (auto simp: SaveImages_handle_def split: option.splits sum.splits)
  from assms(1) w s' handle_recording_information [OF w(2)] show ?thesis
    by (auto simp: loop_inv_def split: thread_state.splits)
qed

lemma loop_inv_thread_step:
  assumes "loop_inv s"
  shows "loop_inv (thread_step env now s)"
proof (cases "worker s")
  case None
  with assms show ?thesis by (simp add: thread_step_def)
next
  case (Some w)
  show ?thesis
  proof (cases "recordingThread s")
    case NotRunning
    with Some assms show ?thesis by (simp add: thread_step_def)
  next
    case Started
    with Some assms show ?thesis
      by (auto simp: thread_step_def run_enter_def loop_inv_def set_base_filename_def)
  next
    case (Looping l)
    show ?thesis
    proof (cases "is_recording s \<and> frames l < max_frames w")
      case False
      with Some Looping show ?thesis
        by (auto simp: thread_step_def run_close_def loop_inv_def)
    next
      case True
      with Some Looping assms show ?thesis
        by (auto simp: thread_step_def run_body_def loop_inv_def split: option.splits)
    qed
  qed
qed

lemma loop_inv_start:
  assumes "recordingThread s = NotRunning"
  shows "loop_inv (startRecording env im now s)"
  using assms by (auto simp: loop_inv_def startRecording_def Let_def split: option.splits)

lemma loop_inv_step:
  assumes "loop_inv s" and "\<not> is_start a" and "step env a s = Inr s'"
  shows "loop_inv s'"
proof (cases a)
  case (StartRecording im now)
  with assms(2) show ?thesis by simp
next
  case (HandleFrame f)
  with assms(1,3) show ?thesis by (auto intro: loop_inv_handle)
next
  case EndRecording
  with assms(1,3) show ?thesis
    by (auto simp: loop_inv_def endRecording_def split: thread_state.splits)
next
  case (ThreadStep now)
  with assms(1,3) show ?thesis by (auto intro: loop_inv_thread_step)
qed

lemma loop_inv_exec:
  assumes "loop_inv s" and "filter is_start acts = []" and "exec env acts s = Inr s'"
  shows "loop_inv s'"
  using assms
proof (induction acts arbitrary: s)
  case Nil
  then show ?case by simp
next
  case (Cons a acts)
  from Cons.prems(2) have na: "\<not> is_start a" and nacts: "filter is_start acts = []"
    by (auto split: if_splits)
  from Cons.prems(3) obtain s1 where s1: "step env a s = Inr s1" and rest: "exec env acts s1 = Inr s'"
    by (auto split: sum.splits)
  from Cons.IH [OF loop_inv_step [OF Cons.prems(1) na s1] nacts rest] show ?case .
qed

lemma session_loop_inv:
  assumes "session env s0 im t0 acts s"
  shows "loop_inv s"
proof -
  from assms have "recordingThread s0 = NotRunning" "filter is_start acts = []"
    "exec env acts (startRecording env im t0 s0) = Inr s"
    by (simp_all add: session_def)
  with loop_inv_start [of s0 env im t0] show ?thesis by (blast intro: loop_inv_exec)
qed

lemma started_inv_start:
  assumes "recordingThread s = NotRunning"
  shows "started_inv t0 (startRecording env im t0 s)"
  using assms
  by (auto simp: started_inv_def startRecording_def Let_def WriterThreadWorker_new_def
        RecordingInformation_new_def split: option.splits)

lemma started_inv_step:
  assumes "started_inv t0 s" and "\<not> is_start a" and "step env a s = Inr s'"
  shows "started_inv t0 s'"
proof (cases a)
  case (StartRecording im now)
  with assms(2) show ?thesis by simp
next
  case (HandleFrame f)
  show ?thesis
  proof (cases "is_recording s")
    case False
    with HandleFrame assms(1,3) show ?thesis by (simp add: SaveImages_handle_def)
  next
    case True
    with HandleFrame assms(3) obtain w w' ev where w: "worker s = Some w" "handle w f = Inr (w', ev)"
      and s': "s' = s\<lparr>worker := Some w', emitted := emitted s @ ev\<rparr>"
      by (auto simp: SaveImages_handle_def split: option.splits sum.splits)
    from assms(1) w s' handle_recording_information [OF w(2)] show ?thesis
      by (auto simp: started_inv_def split: thread_state.splits option.splits)
  qed
next
  case EndRecording
  with assms(1,3) show ?thesis
    by (auto simp: started_inv_def endRecording_def split: thread_state.splits)
next
  case (ThreadStep now)
  with assms(3) have s': "s' = thread_step env now s" by simp
  show ?thesis
  proof (cases "worker s")
    case None
    with assms(1) s' show ?thesis by (simp add: thread_step_def)
  next
    case (Some w)
    show ?thesis
    proof (cases "recordingThread s")
      case NotRunning
      with Some assms(1) s' show ?thesis by (simp add: thread_step_def)
    next
      case Started
      with Some assms(1) s' show ?thesis
        by (auto simp: thread_step_def run_enter_def started_inv_def set_base_filename_def
              split: option.splits)
    next
      case (Looping l)
      show ?thesis
      proof (cases "is_recording s \<and> frames l < max_frames w")
        case False
        with Some Looping s' show ?thesis
          by (auto simp: thread_step_def run_close_def started_inv_def)
      next
        case True
        with Some Looping assms(1) s' show ?thesis
          by (auto simp: thread_step_def run_body_def started_inv_def split: option.splits)
      qed
    qed
  qed
qed

lemma started_inv_exec:
  assumes "started_inv t0 s" and "filter is_start acts = []" and "exec env acts s = Inr s'"
  shows "started_inv t0 s'"
  using assms
proof (induction acts arbitrary: s)
  case Nil
  then show ?case by simp
next
  case (Cons a acts)
  from Cons.prems(2) have na: "\<not> is_start a" and nacts: "filter is_start acts = []"
    by (auto split: if_splits)
  from Cons.prems(3) obtain s1 where s1: "step env a s = Inr s1" and rest: "exec env acts s1 = Inr s'"
    by (auto split: sum.splits)
  from Cons.IH [OF started_inv_step [OF Cons.prems(1) na s1] nacts rest] show ?case .
qed

lemma session_started:
  assumes "session env s0 im t0 acts s" and "recordingThread s = Looping l"
    and "worker s = Some w" and "recording_information w = Some r"
  shows "started r = t0"
proof -
  from assms(1) have "recordingThread s0 = NotRunning" "filter is_start acts = []"
    "exec env acts (startRecording env im t0 s0) = Inr s"
    by (simp_all add: session_def)
  with started_inv_start [of s0 t0 env im] have "started_inv t0 s"
    by (blast intro: started_inv_exec)
  with assms(2,3,4) show ?thesis by (simp add: started_inv_def)
qed

section \<open>The capacity of the queue\<close>

lemma exec_append:
  "exec env (as @ bs) s = (case exec env as s of Inl e \<Rightarrow> Inl e | Inr s' \<Rightarrow> exec env bs s')"
  by (induction as arbitrary: s) (auto split: sum.splits)

lemma handle_keeps_capacity:
  assumes "framesQueue w = Some q"
  shows "\<exists>w' ev q'. handle w f = Inr (w', ev) \<and> framesQueue w' = Some q' \<and>
           max_size q' = max_size q \<and> max_memory w' = max_memory w"
  using assms by (simp add: handle_queue_present)

lemma pop_keeps_capacity: "pop q = Some (t, q') \<Longrightarrow> max_size q' = max_size q"
  by (auto simp: pop_def split: list.splits)

lemma step_keeps_capacity:
  assumes "worker s = Some w" and "framesQueue w = Some q" and "\<not> is_start a"
  shows "\<exists>s' w' q'. step env a s = Inr s' \<and> worker s' = Some w' \<and>
           framesQueue w' = Some q' \<and> max_size q' = max_size q"
proof (cases a)
  case (StartRecording im now)
  with assms(3) show ?thesis by simp
next
  case (HandleFrame f)
  from handle_keeps_capacity [OF assms(2), of f] obtain w' ev q'
    where "handle w f = Inr (w', ev)" "framesQueue w' = Some q'" "max_size q' = max_size q"
    by blast
  with HandleFrame assms(1,2) show ?thesis
    by (cases "is_recording s") (simp_all add: SaveImages_handle_def)
next
  case EndRecording
  with assms(1,2) show ?thesis by (simp add: endRecording_def)
next
  case (ThreadStep now)
  show ?thesis
  proof (cases "recordingThread s")
    case NotRunning
    with ThreadStep assms(1,2) show ?thesis by (simp add: thread_step_def)
  next
    case Started
    with ThreadStep assms(1,2) show ?thesis by (simp add: thread_step_def run_enter_def)
  next
    case (Looping l)
    with ThreadStep assms(1,2) show ?thesis
      by (auto simp: thread_step_def run_body_def run_close_def run_leave_def
            split: option.splits dest: pop_keeps_capacity)
  qed
qed

lemma exec_keeps_capacity:
  assumes "worker s = Some w" and "framesQueue w = Some q" and "\<forall>a \<in> set acts. \<not> is_start a"
  shows "\<exists>s' w' q'. exec env acts s = Inr s' \<and> worker s' = Some w' \<and>
           framesQueue w' = Some q' \<and> max_size q' = max_size q"
  using assms
proof (induction acts arbitrary: s w q)
  case Nil
  then show ?case by simp
next
  case (Cons a acts)
  from Cons.prems have "\<not> is_start a" by simp
  from step_keeps_capacity [OF Cons.prems(1,2) this, of env] obtain s1 w1 q1
    where s1: "step env a s = Inr s1" "worker s1 = Some w1" "framesQueue w1 = Some q1"
      "max_size q1 = max_size q"
    by blast
  from Cons.prems(3) have "\<forall>a \<in> set acts. \<not> is_start a" by simp
  from Cons.IH [OF s1(2,3) this] s1(1,4) show ?case by simp
qed

lemma handle_first_frame:
  assumes "framesQueue w = None" and "imageDataSize f \<noteq> 0"
  shows "\<exists>w' ev q. handle w f = Inr (w', ev) \<and> framesQueue w' = Some q \<and>
           max_size q = unat (max_memory w) div unat (imageDataSize f)"
  using assms by (simp add: handle_def push_def spsc_queue_new_def unat_div)

text \<open>
  C1 (as the code has it). The capacity of the frames queue is fixed by the first frame
  submitted in a session, of a byte size other than 0: it is the memory budget divided
  by that size, rounded down, as unsigned 64-bit numbers. Whatever follows in the
  session (further frames of any size, passes of the writer's loop, the end of the
  recording), the queue keeps that capacity. It is 0, not 1, when the budget is smaller
  than the first frame.
\<close>

theorem capacity_from_first_frame:
  assumes "worker s = Some w" and "framesQueue w = None" and "is_recording s"
    and "imageDataSize f \<noteq> 0" and "filter is_start acts = []"
  shows "\<exists>s' w' q. exec env (HandleFrame f # acts) s = Inr s' \<and> worker s' = Some w' \<and>
           framesQueue w' = Some q \<and>
           max_size q = unat (max_memory w) div unat (imageDataSize f) \<and>
           (unat (max_memory w) < unat (imageDataSize f) \<longrightarrow> max_size q = 0)"
proof -
  from handle_first_frame [OF assms(2,4)] obtain w1 ev q1
    where h: "handle w f = Inr (w1, ev)" "framesQueue w1 = Some q1"
      "max_size q1 = unat (max_memory w) div unat (imageDataSize f)"
    by blast
  let ?s1 = "s\<lparr>worker := Some w1, emitted := emitted s @ ev\<rparr>"
  have s1: "step env (HandleFrame f) s = Inr ?s1"
    using assms(1,3) h(1) by (simp add: SaveImages_handle_def)
  have "worker ?s1 = Some w1" by simp
  moreover from assms(5) have "\<forall>a \<in> set acts. \<not> is_start a"
    by (simp add: filter_empty_conv)
  ultimately obtain s' w' q
    where "exec env acts ?s1 = Inr s'" "worker s' = Some w'" "framesQueue w' = Some q"
      "max_size q = max_size q1"
    using exec_keeps_capacity [OF _ h(2), of ?s1 acts env] by blast
  with s1 h(3) show ?thesis by simp
qed

theorem capacity_from_first_frame_witness:
  "worker (startRecording example_env example_imager 0 (SaveImages_new example_configuration))
     = Some (WriterThreadWorker_new (ser_factory ''cam'') 5 1000
               (Some (RecordingInformation_new example_configuration example_imager 0))) \<and>
   framesQueue (WriterThreadWorker_new (ser_factory ''cam'') 5 1000
               (Some (RecordingInformation_new example_configuration example_imager 0))) = None \<and>
   is_recording (startRecording example_env example_imager 0 (SaveImages_new example_configuration)) \<and>
   imageDataSize (example_frame 1) \<noteq> 0 \<and>
   filter is_start [ThreadStep 1, HandleFrame (example_frame 2), ThreadStep 2, EndRecording] = [] \<and>
   (\<exists>s' w' q.
      exec example_env
        (HandleFrame (example_frame 1) #
           [ThreadStep 1, HandleFrame (example_frame 2), ThreadStep 2, EndRecording])
        (startRecording example_env example_imager 0 (SaveImages_new example_configuration)) = Inr s' \<and>
      worker s' = Some w' \<and> framesQueue w' = Some q \<and> max_size q = 10)"
proof -
  let ?s = "startRecording example_env example_imager 0 (SaveImages_new example_configuration)"
  let ?w = "WriterThreadWorker_new (ser_factory ''cam'') 5 1000
               (Some (RecordingInformation_new example_configuration example_imager 0))"
  let ?acts = "[ThreadStep 1, HandleFrame (example_frame 2), ThreadStep 2, EndRecording]"
  have h1: "worker ?s = Some ?w"
    by (simp add: startRecording_def writerFactory_def example_env_def example_configuration_def
          SaveImages_new_def example_imager_def Let_def)
  have h2: "framesQueue ?w = None" by (simp add: WriterThreadWorker_new_def)
  have h3: "is_recording ?s"
    by (simp add: startRecording_def writerFactory_def example_env_def example_configuration_def
          SaveImages_new_def Let_def)
  have h4: "imageDataSize (example_frame 1) \<noteq> 0"
    by (simp add: imageDataSize_def example_frame_def)
  have h5: "filter is_start ?acts = []" by simp
  have m: "unat (max_memory ?w) div unat (imageDataSize (example_frame 1)) = 10"
    by (simp add: WriterThreadWorker_new_def imageDataSize_def example_frame_def)
  from capacity_from_first_frame [OF h1 h2 h3 h4 h5, of example_env]
  obtain s' w' q where "exec example_env (HandleFrame (example_frame 1) # ?acts) ?s = Inr s'"
    and "worker s' = Some w'" and "framesQueue w' = Some q"
    and "max_size q = unat (max_memory ?w) div unat (imageDataSize (example_frame 1))"
    by blast
  with m have c: "\<exists>s' w' q. exec example_env (HandleFrame (example_frame 1) # ?acts) ?s = Inr s' \<and>
      worker s' = Some w' \<and> framesQueue w' = Some q \<and> max_size q = 10"
    by metis
  show ?thesis by (intro conjI h1 h2 h3 h4 h5 c)
qed

text \<open>
  With a budget of 10 bytes and a first frame of 100 bytes the queue is made for 0
  frames: the frame is rejected and counted as dropped.
\<close>

theorem capacity_zero_counterexample:
  "handle (WriterThreadWorker_new (ser_factory ''cam'') 5 10 None)
     \<lparr>cols = 10, rows = 10, mat_total = 100, mat_elemSize = 1, pixels = []\<rparr>
   = Inr (\<lparr>fileWriterFactory = ser_factory ''cam'',
           framesQueue = Some \<lparr>max_size = 0, items = []\<rparr>,
           max_frames = 5, max_memory = 10, dropped_frames = 1,
           recording_information = None\<rparr>,
          [DroppedFrames 1])"
  by (simp add: handle_def WriterThreadWorker_new_def imageDataSize_def spsc_queue_new_def push_def)

section \<open>Dropped frames\<close>

text \<open>
  C2. \<open>N\<close> frames are submitted and nothing is popped. The queue has the capacity
  \<open>C < N\<close>: it is there and empty, or the worker is fresh and the first frame, of a
  byte size other than 0, makes it. Then every call returns, the first \<open>C\<close> frames are in the queue, in order, and each
  of the other \<open>N - C\<close> calls adds 1 to \<^verbatim>\<open>dropped_frames\<close> and emits
  \<^verbatim>\<open>droppedFrames\<close> with the new count: the signals carry the counter's start plus
  1, 2, ..., \<open>N - C\<close> (in 64-bit arithmetic).
\<close>

theorem drops_when_never_popped:
  assumes "framesQueue w = None \<and> imageDataSize (hd fs) \<noteq> 0 \<and>
             C = unat (max_memory w div imageDataSize (hd fs)) \<or>
           framesQueue w = Some \<lparr>max_size = C, items = []\<rparr>"
    and "N = length fs" and "C < N"
  shows "handle_all w fs =
           Inr (w\<lparr>framesQueue := Some \<lparr>max_size = C, items = take C fs\<rparr>,
                  dropped_frames := dropped_frames w + of_nat (N - C)\<rparr>,
                map (\<lambda>k. DroppedFrames (dropped_frames w + 1 + of_nat k)) [0..<N - C])
         \<and> length (take C fs) = C"
proof -
  let ?q = "\<lparr>max_size = C, items = []\<rparr>"
  let ?w = "w\<lparr>framesQueue := Some ?q\<rparr>"
  have "handle_all w fs = handle_all ?w fs"
  proof (cases "framesQueue w")
    case (Some q)
    with assms(1) have "?w = w" by simp
    then show ?thesis by simp
  next
    case None
    from assms(2,3) obtain f fs' where fs: "fs = f # fs'" by (cases fs) auto
    from None assms(1) fs have "handle w f = handle ?w f"
      by (simp add: handle_queue_absent spsc_queue_new_def)
    with fs show ?thesis by simp
  qed
  moreover have "framesQueue ?w = Some ?q" "length (items ?q) \<le> max_size ?q"
    by simp_all
  note handle_all_queue_present [OF this, of fs]
  ultimately show ?thesis
    using assms(2,3) by simp
qed

theorem drops_when_never_popped_witness:
  "framesQueue (WriterThreadWorker_new (ser_factory ''cam'') 5 250 None) = None \<and>
   imageDataSize (hd [example_frame 1, example_frame 2, example_frame 3, example_frame 4]) \<noteq> 0 \<and>
   (2::nat) < 4 \<and>
   handle_all (WriterThreadWorker_new (ser_factory ''cam'') 5 250 None)
     [example_frame 1, example_frame 2, example_frame 3, example_frame 4]
   = Inr (\<lparr>fileWriterFactory = ser_factory ''cam'',
           framesQueue = Some \<lparr>max_size = 2, items = [example_frame 1, example_frame 2]\<rparr>,
           max_frames = 5, max_memory = 250, dropped_frames = 2,
           recording_information = None\<rparr>,
          [DroppedFrames 1, DroppedFrames 2])"
proof -
  let ?w = "WriterThreadWorker_new (ser_factory ''cam'') 5 250 None"
  let ?fs = "[example_frame 1, example_frame 2, example_frame 3, example_frame 4]"
  have h1: "framesQueue ?w = None" by (simp add: WriterThreadWorker_new_def)
  have h2: "imageDataSize (hd ?fs) \<noteq> 0" by (simp add: imageDataSize_def example_frame_def)
  have h3: "2 = unat (max_memory ?w div imageDataSize (hd ?fs))"
    by (simp add: WriterThreadWorker_new_def imageDataSize_def example_frame_def)
  have h4: "4 = length ?fs" by simp
  have h5: "(2::nat) < 4" by simp
  have u: "[0..<2] = [0, Suc 0]" by (simp add: upt_rec)
  from h1 h2 h3 have h: "framesQueue ?w = None \<and> imageDataSize (hd ?fs) \<noteq> 0 \<and>
      2 = unat (max_memory ?w div imageDataSize (hd ?fs)) \<or>
      framesQueue ?w = Some \<lparr>max_size = 2, items = []\<rparr>"
    by blast
  from drops_when_never_popped [OF h h4 h5] u
  have c: "handle_all ?w ?fs
   = Inr (\<lparr>fileWriterFactory = ser_factory ''cam'',
           framesQueue = Some \<lparr>max_size = 2, items = [example_frame 1, example_frame 2]\<rparr>,
           max_frames = 5, max_memory = 250, dropped_frames = 2,
           recording_information = None\<rparr>,
          [DroppedFrames 1, DroppedFrames 2])"
    by (simp add: WriterThreadWorker_new_def)
  show ?thesis by (intro conjI h1 h2 h5 c)
qed

section \<open>The example sessions\<close>

lemma example_start:
  "startRecording example_env example_imager 0 (SaveImages_new example_configuration) =
     \<lparr>configuration = example_configuration,
      worker = Some (WriterThreadWorker_new (ser_factory ''cam'') 5 1000
                 (Some (RecordingInformation_new example_configuration example_imager 0))),
      is_recording = True, recordingThread = Started, finished_connections = 1,
      emitted = [], written = []\<rparr>"
  by (simp add: startRecording_def writerFactory_def example_env_def SaveImages_new_def Let_def)
     (simp add: example_configuration_def example_imager_def)

lemma example_enter:
  "thread_step example_env 1
     (startRecording example_env example_imager 0 (SaveImages_new example_configuration)) =
     \<lparr>configuration = example_configuration,
      worker = Some (example_worker None),
      is_recording = True,
      recordingThread = Looping no_frame_locals,
      finished_connections = 1, emitted = [Recording ''out_cam.ser''], written = []\<rparr>"
  unfolding example_start
  by (simp add: thread_step_def run_enter_def WriterThreadWorker_new_def example_information_def
        example_worker_def no_frame_locals_def)
     (simp add: ser_factory_def example_configuration_def)

lemma empty_session_run:
  "exec example_env [StartRecording example_imager 0, ThreadStep 1, EndRecording]
     (SaveImages_new example_configuration) = Inr empty_session"
  by (simp add: example_enter endRecording_def empty_session_def)

lemma ended_session_run:
  "exec example_env
     [StartRecording example_imager 0, ThreadStep 1, HandleFrame (example_frame 1), ThreadStep 2,
      EndRecording]
     (SaveImages_new example_configuration) = Inr ended_session"
  apply (simp add: example_enter SaveImages_handle_def handle_def imageDataSize_def
           example_frame_def spsc_queue_new_def push_def example_worker_def)
  apply (simp add: thread_step_def run_body_def pop_def endRecording_def ended_session_def
           example_frame_def example_worker_def no_frame_locals_def one_frame_locals_def)
  done

lemma example_idle:
  "recordingThread (SaveImages_new example_configuration) = NotRunning"
  "writerFactory example_env (configuration (SaveImages_new example_configuration)) = Some ser_factory"
  "emitted (SaveImages_new example_configuration) = []"
  "written (SaveImages_new example_configuration) = []"
  "finished_connections (SaveImages_new example_configuration) = 0"
  by (simp_all add: SaveImages_new_def writerFactory_def example_env_def example_configuration_def)

lemma empty_session_session:
  "session example_env (SaveImages_new example_configuration) example_imager 0
     [ThreadStep 1, EndRecording] empty_session"
  using empty_session_run by (simp add: session_def example_idle)

lemma ended_session_session:
  "session example_env (SaveImages_new example_configuration) example_imager 0
     [ThreadStep 1, HandleFrame (example_frame 1), ThreadStep 2, EndRecording] ended_session"
  using ended_session_run by (simp add: session_def example_idle)

lemma ended_session_facts:
  "recordingThread ended_session = Looping one_frame_locals"
  "worker ended_session = Some (example_worker (Some \<lparr>max_size = 10, items = []\<rparr>))"
  "recording_information (example_worker (Some \<lparr>max_size = 10, items = []\<rparr>)) = Some example_information"
  "\<not> (is_recording ended_session \<and>
       frames one_frame_locals < max_frames (example_worker (Some \<lparr>max_size = 10, items = []\<rparr>)))"
  "length (fw_frames (fileWriter one_frame_locals)) < 2 ^ 31"
  by (simp_all add: ended_session_def example_worker_def one_frame_locals_def)

lemma empty_session_facts:
  "recordingThread empty_session = Looping no_frame_locals"
  "worker empty_session = Some (example_worker None)"
  "recording_information (example_worker None) = Some example_information"
  "\<not> (is_recording empty_session \<and> frames no_frame_locals < max_frames (example_worker None))"
  "fw_frames (fileWriter no_frame_locals) = []"
  by (simp_all add: empty_session_def example_worker_def no_frame_locals_def)

lemma example_information_facts:
  "started example_information = 0"
  "filename example_information = ''out_cam.ser.txt''"
  "can_open example_env ''out_cam.ser.txt''"
  by (simp_all add: example_information_def set_base_filename_def RecordingInformation_new_def
        example_env_def)

section \<open>Starting without a destination\<close>

text \<open>
  C7. When the configured \<^verbatim>\<open>savefile\<close> is empty, or no writer is registered for
  the configured format, \<^verbatim>\<open>startRecording\<close> returns the controller as it was: no worker and no session is made, the flag, the thread and the
  connections are untouched, and no signal is emitted.
\<close>

theorem startRecording_without_destination:
  assumes "savefile (configuration s) = [] \<or> factories env (save_format (configuration s)) = None"
  shows "startRecording env im now s = s"
  using assms by (auto simp: startRecording_def writerFactory_def)

theorem startRecording_without_destination_witness:
  "savefile (configuration (SaveImages_new (example_configuration\<lparr>savefile := []\<rparr>))) = [] \<and>
   startRecording example_env example_imager 7 (SaveImages_new (example_configuration\<lparr>savefile := []\<rparr>))
     = SaveImages_new (example_configuration\<lparr>savefile := []\<rparr>) \<and>
   worker (startRecording example_env example_imager 7
             (SaveImages_new (example_configuration\<lparr>savefile := []\<rparr>))) = None \<and>
   \<not> is_recording (startRecording example_env example_imager 7
             (SaveImages_new (example_configuration\<lparr>savefile := []\<rparr>))) \<and>
   emitted (startRecording example_env example_imager 7
             (SaveImages_new (example_configuration\<lparr>savefile := []\<rparr>))) = [] \<and>
   recordingThread (startRecording example_env example_imager 7
             (SaveImages_new (example_configuration\<lparr>savefile := []\<rparr>))) = NotRunning"
proof -
  let ?s = "SaveImages_new (example_configuration\<lparr>savefile := []\<rparr>)"
  have h: "savefile (configuration ?s) = []" by (simp add: SaveImages_new_def)
  then have "savefile (configuration ?s) = [] \<or>
      factories example_env (save_format (configuration ?s)) = None" ..
  from startRecording_without_destination [OF this, of example_imager 7] h
  show ?thesis by (simp add: SaveImages_new_def)
qed

section \<open>The snapshot of the controls\<close>

lemma camera_settings_other:
  "name \<notin> set (map control_name cs) \<Longrightarrow>
   foldl (\<lambda>m setting. m(control_name setting \<mapsto> VMap (setting_value setting))) m0 cs name = m0 name"
  by (induction cs arbitrary: m0) auto

lemma camera_settings_last:
  assumes "control_name setting \<notin> set (map control_name after)"
  shows "camera_settings (before @ setting # after) (control_name setting) =
           Some (VMap (setting_value setting))"
  unfolding camera_settings_def using camera_settings_other [OF assms] by simp

lemma setting_value_duration:
  assumes "control_type setting = Number" and "is_duration setting"
  shows "setting_value setting ''type'' = Some (VString ''duration'')"
    and "setting_value setting ''value'' = Some (VDouble (control_value setting))"
    and "setting_value setting ''value_seconds'' =
           Some (VDouble (dmul (dmul (control_value setting) (duration_unit setting)) (Finite 1)))"
    and "setting_value setting ''value_milliseconds'' =
           Some (VDouble (dmul (dmul (control_value setting) (duration_unit setting)) (Finite 1000)))"
    and "setting_value setting ''value_microseconds'' =
           Some (VDouble (dmul (dmul (control_value setting) (duration_unit setting)) (Finite 1000000)))"
  using assms by (simp_all add: setting_value_def units_def)

lemma finalised_camera_settings:
  "properties (set_ended now total_frames w h (set_base_filename name (RecordingInformation_new cfg im t0)))
     ''camera-settings'' = Some (VMap (camera_settings (controls im)))"
  by (simp add: set_ended_def set_base_filename_def RecordingInformation_new_def)

subsection \<open>The products of the examples\<close>

text \<open>
  \<open>millisecond\<close> is the double that \<^verbatim>\<open>0.001\<close> denotes. The products below are those
  of a value of 20 and of a value of 9 with it and then with the factors of the units;
  the product of 9, \<^verbatim>\<open>0.001\<close> and 1000 is the double next above 9.
\<close>

lemma binade_ms: "binade 1 1000 = - 10"
  by (simp add: binade_def scaled_def bitlength.simps Let_def)

lemma round_ratio_ms: "round_ratio 1 1 1000 = millisecond"
  by (simp add: round_ratio_def binade_ms scaled_def round_even_def pow2_def Let_def millisecond_def)

lemma to_double_ms: "to_double (1 / 1000) = millisecond"
proof -
  have "quotient_of \<bar>1 / 1000 :: rat\<bar> = (1, 1000)"
    by code_simp
  then show ?thesis
    by (simp add: to_double_def round_ratio_ms)
qed

lemma binade_20_ms: "binade 5764607523034235 288230376151711744 = - 6"
  by (simp add: binade_def scaled_def bitlength.simps Let_def)

lemma round_ratio_20_ms: "round_ratio 1 5764607523034235 288230376151711744 = Finite (5764607523034235 / 288230376151711744)"
  by (simp add: round_ratio_def binade_20_ms scaled_def round_even_def pow2_def Let_def)

lemma dmul_20_ms: "dmul (Finite 20) (Finite (1152921504606847 / 1152921504606846976)) = Finite (5764607523034235 / 288230376151711744)"
proof -
  have "quotient_of \<bar>(20 :: rat) * (1152921504606847 / 1152921504606846976)\<bar> = (5764607523034235, 288230376151711744)"
    by code_simp
  then show ?thesis
    by (simp add: dmul_def to_double_def round_ratio_20_ms)
qed

lemma binade_20_s: "binade 5764607523034235 288230376151711744 = - 6"
  by (simp add: binade_def scaled_def bitlength.simps Let_def)

lemma round_ratio_20_s: "round_ratio 1 5764607523034235 288230376151711744 = Finite (5764607523034235 / 288230376151711744)"
  by (simp add: round_ratio_def binade_20_s scaled_def round_even_def pow2_def Let_def)

lemma dmul_20_s: "dmul (Finite (5764607523034235 / 288230376151711744)) (Finite 1) = Finite (5764607523034235 / 288230376151711744)"
proof -
  have "quotient_of \<bar>(5764607523034235 / 288230376151711744 :: rat) * (1)\<bar> = (5764607523034235, 288230376151711744)"
    by code_simp
  then show ?thesis
    by (simp add: dmul_def to_double_def round_ratio_20_s)
qed

lemma binade_20_k: "binade 720575940379279375 36028797018963968 = 4"
  by (simp add: binade_def scaled_def bitlength.simps Let_def)

lemma round_ratio_20_k: "round_ratio 1 720575940379279375 36028797018963968 = Finite 20"
  by (simp add: round_ratio_def binade_20_k scaled_def round_even_def pow2_def Let_def)

lemma dmul_20_k: "dmul (Finite (5764607523034235 / 288230376151711744)) (Finite 1000) = Finite 20"
proof -
  have "quotient_of \<bar>(5764607523034235 / 288230376151711744 :: rat) * (1000)\<bar> = (720575940379279375, 36028797018963968)"
    by code_simp
  then show ?thesis
    by (simp add: dmul_def to_double_def round_ratio_20_k)
qed

lemma binade_20_M: "binade 90071992547409921875 4503599627370496 = 14"
  by (simp add: binade_def scaled_def bitlength.simps Let_def)

lemma round_ratio_20_M: "round_ratio 1 90071992547409921875 4503599627370496 = Finite 20000"
  by (simp add: round_ratio_def binade_20_M scaled_def round_even_def pow2_def Let_def)

lemma dmul_20_M: "dmul (Finite (5764607523034235 / 288230376151711744)) (Finite 1000000) = Finite 20000"
proof -
  have "quotient_of \<bar>(5764607523034235 / 288230376151711744 :: rat) * (1000000)\<bar> = (90071992547409921875, 4503599627370496)"
    by code_simp
  then show ?thesis
    by (simp add: dmul_def to_double_def round_ratio_20_M)
qed

lemma binade_9_ms: "binade 10376293541461623 1152921504606846976 = - 7"
  by (simp add: binade_def scaled_def bitlength.simps Let_def)

lemma round_ratio_9_ms: "round_ratio 1 10376293541461623 1152921504606846976 = Finite (1297036692682703 / 144115188075855872)"
  by (simp add: round_ratio_def binade_9_ms scaled_def round_even_def pow2_def Let_def)

lemma dmul_9_ms: "dmul (Finite 9) (Finite (1152921504606847 / 1152921504606846976)) = Finite (1297036692682703 / 144115188075855872)"
proof -
  have "quotient_of \<bar>(9 :: rat) * (1152921504606847 / 1152921504606846976)\<bar> = (10376293541461623, 1152921504606846976)"
    by code_simp
  then show ?thesis
    by (simp add: dmul_def to_double_def round_ratio_9_ms)
qed

lemma binade_9_k: "binade 162129586585337875 18014398509481984 = 3"
  by (simp add: binade_def scaled_def bitlength.simps Let_def)

lemma round_ratio_9_k: "round_ratio 1 162129586585337875 18014398509481984 = Finite (5066549580791809 / 562949953421312)"
  by (simp add: round_ratio_def binade_9_k scaled_def round_even_def pow2_def Let_def)

lemma dmul_9_k: "dmul (Finite (1297036692682703 / 144115188075855872)) (Finite 1000) = Finite (5066549580791809 / 562949953421312)"
proof -
  have "quotient_of \<bar>(1297036692682703 / 144115188075855872 :: rat) * (1000)\<bar> = (162129586585337875, 18014398509481984)"
    by code_simp
  then show ?thesis
    by (simp add: dmul_def to_double_def round_ratio_9_k)
qed

text \<open>
  C9 (as the code has it). For a control of type number that is a duration and is the
  last control of its name (the settings are keyed by name, so that a later control of
  the same name replaces the entry), the metadata of the session, as it stands when the
  session has been finalised, has under \<^verbatim>\<open>camera-settings\<close> and the control's name
  the type \<^verbatim>\<open>duration\<close>, the raw value, and the value in seconds, milliseconds and
  microseconds: the product of the value and the unit's count, rounded to a double,
  times 1, 1000 and 1000000, rounded again.
\<close>

theorem duration_control_snapshot:
  assumes "controls im = before @ setting # after"
    and "control_name setting \<notin> set (map control_name after)"
    and "control_type setting = Number" and "is_duration setting"
    and "r = set_ended now total_frames w h (set_base_filename name (RecordingInformation_new cfg im t0))"
  shows "\<exists>cs sv. properties r ''camera-settings'' = Some (VMap cs) \<and>
           cs (control_name setting) = Some (VMap sv) \<and>
           sv ''type'' = Some (VString ''duration'') \<and>
           sv ''value'' = Some (VDouble (control_value setting)) \<and>
           sv ''value_seconds'' =
             Some (VDouble (dmul (dmul (control_value setting) (duration_unit setting)) (Finite 1))) \<and>
           sv ''value_milliseconds'' =
             Some (VDouble (dmul (dmul (control_value setting) (duration_unit setting)) (Finite 1000))) \<and>
           sv ''value_microseconds'' =
             Some (VDouble (dmul (dmul (control_value setting) (duration_unit setting)) (Finite 1000000)))"
proof -
  have "properties r ''camera-settings'' = Some (VMap (camera_settings (controls im)))"
    unfolding assms(5) by (rule finalised_camera_settings)
  moreover have "camera_settings (controls im) (control_name setting) = Some (VMap (setting_value setting))"
    unfolding assms(1) by (rule camera_settings_last [OF assms(2)])
  ultimately show ?thesis
    using setting_value_duration [OF assms(3,4)] by blast
qed

theorem duration_control_snapshot_witness:
  "controls example_imager = [] @ exposure # [] \<and>
   control_type exposure = Number \<and> is_duration exposure \<and>
   control_value exposure = Finite 20 \<and> duration_unit exposure = to_double (1 / 1000) \<and>
   (\<exists>cs sv. properties (set_ended 2500 1 10 10 example_information) ''camera-settings'' = Some (VMap cs) \<and>
      cs ''exposure'' = Some (VMap sv) \<and>
      sv ''type'' = Some (VString ''duration'') \<and>
      sv ''value'' = Some (VDouble (Finite 20)) \<and>
      sv ''value_seconds'' = Some (VDouble (Finite (5764607523034235 / 288230376151711744))) \<and>
      sv ''value_milliseconds'' = Some (VDouble (Finite 20)) \<and>
      sv ''value_microseconds'' = Some (VDouble (Finite 20000)))"
proof -
  have h1: "controls example_imager = [] @ exposure # []" by (simp add: example_imager_def)
  have h2: "control_name exposure \<notin> set (map control_name [])" by simp
  have h3: "control_type exposure = Number" by (simp add: exposure_def)
  have h4: "is_duration exposure" by (simp add: exposure_def)
  have h5: "set_ended 2500 1 10 10 example_information =
      set_ended 2500 1 10 10 (set_base_filename ''out_cam.ser''
        (RecordingInformation_new example_configuration example_imager 0))"
    by (simp add: example_information_def)
  have v: "control_value exposure = Finite 20" "duration_unit exposure = to_double (1 / 1000)"
    by (simp_all add: exposure_def to_double_ms)
  have n: "control_name exposure = ''exposure''" by (simp add: exposure_def)
  have p: "dmul (dmul (control_value exposure) (duration_unit exposure)) (Finite 1) =
             Finite (5764607523034235 / 288230376151711744)"
    "dmul (dmul (control_value exposure) (duration_unit exposure)) (Finite 1000) = Finite 20"
    "dmul (dmul (control_value exposure) (duration_unit exposure)) (Finite 1000000) = Finite 20000"
    by (simp_all add: exposure_def millisecond_def dmul_20_ms dmul_20_s dmul_20_k dmul_20_M)
  from duration_control_snapshot [OF h1 h2 h3 h4 h5]
  have c: "\<exists>cs sv. properties (set_ended 2500 1 10 10 example_information) ''camera-settings'' = Some (VMap cs) \<and>
      cs ''exposure'' = Some (VMap sv) \<and>
      sv ''type'' = Some (VString ''duration'') \<and>
      sv ''value'' = Some (VDouble (Finite 20)) \<and>
      sv ''value_seconds'' = Some (VDouble (Finite (5764607523034235 / 288230376151711744))) \<and>
      sv ''value_milliseconds'' = Some (VDouble (Finite 20)) \<and>
      sv ''value_microseconds'' = Some (VDouble (Finite 20000))"
    unfolding n p unfolding v(1) .
  show ?thesis by (intro conjI h1 h3 h4 v c)
qed

text \<open>
  Two cameras against the claim as it was stated. In the first the duration control is
  followed by a control of the same name that is a switch: the entry under the name is
  the switch, of type \<^verbatim>\<open>bool\<close> and with no value in seconds. In the second the
  exposure is 9 units of \<^verbatim>\<open>0.001\<close>: the value in milliseconds is not 9, nor the exact
  product of 9, the unit's count and 1000, but \<open>9 + 2 ^ - 49\<close>, which prints as
  \<^verbatim>\<open>9.000000000000002\<close>.
\<close>

theorem duration_control_counterexample:
  "controls shadowed_imager = [exposure, exposure_switch] \<and>
   control_type exposure = Number \<and> is_duration exposure \<and>
   properties (set_ended 2500 1 10 10 (set_base_filename ''out_cam.ser''
                 (RecordingInformation_new example_configuration shadowed_imager 0)))
     ''camera-settings'' = Some (VMap (camera_settings (controls shadowed_imager))) \<and>
   camera_settings (controls shadowed_imager) (control_name exposure) =
     Some (VMap (setting_value exposure_switch)) \<and>
   setting_value exposure_switch ''type'' = Some (VString ''bool'') \<and>
   setting_value exposure_switch ''value_seconds'' = None \<and>
   controls short_imager = [short_exposure] \<and>
   control_type short_exposure = Number \<and> is_duration short_exposure \<and>
   control_value short_exposure = Finite 9 \<and> duration_unit short_exposure = to_double (1 / 1000) \<and>
   properties (set_ended 2500 1 10 10 (set_base_filename ''out_cam.ser''
                 (RecordingInformation_new example_configuration short_imager 0)))
     ''camera-settings'' = Some (VMap (camera_settings (controls short_imager))) \<and>
   camera_settings (controls short_imager) (control_name short_exposure) =
     Some (VMap (setting_value short_exposure)) \<and>
   setting_value short_exposure ''value_milliseconds'' = Some (VDouble (Finite (9 + 1 / 2 ^ 49))) \<and>
   setting_value short_exposure ''value_milliseconds'' \<noteq> Some (VDouble (Finite 9)) \<and>
   setting_value short_exposure ''value_milliseconds'' \<noteq>
     Some (VDouble (Finite (9 * (1152921504606847 / 1152921504606846976) * 1000)))"
proof -
  have a: "camera_settings [exposure, exposure_switch] ''exposure'' = Some (VMap (setting_value exposure_switch))"
    by (simp add: camera_settings_def exposure_def exposure_switch_def)
  have b: "camera_settings [short_exposure] ''exposure'' = Some (VMap (setting_value short_exposure))"
    by (simp add: camera_settings_def short_exposure_def exposure_def)
  have c: "setting_value short_exposure ''value_milliseconds'' = Some (VDouble (Finite (9 + 1 / 2 ^ 49)))"
    by (simp add: setting_value_def units_def short_exposure_def exposure_def millisecond_def
          dmul_9_ms dmul_9_k)
  have d: "setting_value exposure_switch ''type'' = Some (VString ''bool'')"
    "setting_value exposure_switch ''value_seconds'' = None"
    by (simp_all add: setting_value_def exposure_switch_def types_def)
  have e: "control_name exposure = ''exposure''" "control_name short_exposure = ''exposure''"
    "control_type exposure = Number" "is_duration exposure"
    "control_type short_exposure = Number" "is_duration short_exposure"
    "control_value short_exposure = Finite 9" "duration_unit short_exposure = to_double (1 / 1000)"
    by (simp_all add: exposure_def short_exposure_def to_double_ms)
  show ?thesis
    by (simp add: finalised_camera_settings shadowed_imager_def short_imager_def a b c d e)
qed

section \<open>Writing the metadata document\<close>

lemma dtor_cases:
  "RecordingInformation_dtor env docs r =
     (if filename r = [] then docs
      else if can_open env (filename r) then docs @ [(filename r, properties r)]
      else docs)"
  by (simp add: RecordingInformation_dtor_def)

lemma handle_written:
  "SaveImages_handle f s = Inr s' \<Longrightarrow> written s' = written s \<and> recordingThread s' = recordingThread s"
  by (auto simp: SaveImages_handle_def split: if_splits option.splits sum.splits)

lemma thread_step_written:
  "(recordingThread s = NotRunning \<longrightarrow>
      written (thread_step env now s) = written s \<and> recordingThread (thread_step env now s) = NotRunning) \<and>
   (written (thread_step env now s) = written s \<or>
    (\<exists>r::RecordingInformation. written (thread_step env now s) = written s @ [(filename r, properties r)] \<and>
         filename r \<noteq> [] \<and> can_open env (filename r) \<and>
         recordingThread (thread_step env now s) = NotRunning))"
proof (cases "worker s")
  case None
  then show ?thesis by (simp add: thread_step_def)
next
  case (Some w)
  show ?thesis
  proof (cases "recordingThread s")
    case NotRunning
    with Some show ?thesis by (simp add: thread_step_def)
  next
    case Started
    with Some show ?thesis by (simp add: thread_step_def run_enter_def)
  next
    case (Looping l)
    show ?thesis
    proof (cases "is_recording s \<and> frames l < max_frames w")
      case True
      with Some Looping show ?thesis
        by (auto simp: thread_step_def run_body_def split: option.splits)
    next
      case False
      then have ts: "thread_step env now s = run_close env (run_leave now l w) (s\<lparr>is_recording := False\<rparr>)"
        using Some Looping by (auto simp: thread_step_def)
      show ?thesis
      proof (cases "recording_information (run_leave now l w)")
        case None
        with ts Looping show ?thesis by (simp add: run_close_def)
      next
        case (Some r)
        with ts have w: "written (thread_step env now s) = RecordingInformation_dtor env (written s) r"
          and t: "recordingThread (thread_step env now s) = NotRunning"
          by (simp_all add: run_close_def)
        show ?thesis
        proof (cases "filename r \<noteq> [] \<and> can_open env (filename r)")
          case True
          with w have "written (thread_step env now s) = written s @ [(filename r, properties r)]"
            by (simp add: dtor_cases)
          with True t Looping show ?thesis by auto
        next
          case False
          with w have "written (thread_step env now s) = written s"
            by (auto simp: dtor_cases)
          with Looping show ?thesis by simp
        qed
      qed
    qed
  qed
qed

lemma step_written:
  assumes "\<not> is_start a" and "step env a s = Inr s'"
  shows "(recordingThread s = NotRunning \<longrightarrow> written s' = written s \<and> recordingThread s' = NotRunning) \<and>
         (written s' = written s \<or>
          (\<exists>r::RecordingInformation. written s' = written s @ [(filename r, properties r)] \<and>
               filename r \<noteq> [] \<and> can_open env (filename r) \<and> recordingThread s' = NotRunning))"
proof (cases a)
  case (StartRecording im now)
  with assms(1) show ?thesis by simp
next
  case (HandleFrame f)
  with assms(2) handle_written [of f s s'] show ?thesis by simp
next
  case EndRecording
  with assms(2) show ?thesis by (auto simp: endRecording_def)
next
  case (ThreadStep now)
  with assms(2) thread_step_written [of s env now] show ?thesis by auto
qed

lemma exec_written:
  assumes "filter is_start acts = []" and "exec env acts s = Inr s'"
  shows "(recordingThread s = NotRunning \<longrightarrow> written s' = written s \<and> recordingThread s' = NotRunning) \<and>
         (written s' = written s \<or>
          (\<exists>r::RecordingInformation. written s' = written s @ [(filename r, properties r)] \<and>
               filename r \<noteq> [] \<and> can_open env (filename r) \<and> recordingThread s' = NotRunning))"
  using assms
proof (induction acts arbitrary: s)
  case Nil
  then show ?case by simp
next
  case (Cons a acts)
  from Cons.prems(1) have na: "\<not> is_start a" and nacts: "filter is_start acts = []"
    by (auto split: if_splits)
  from Cons.prems(2) obtain s1 where s1: "step env a s = Inr s1" and rest: "exec env acts s1 = Inr s'"
    by (auto split: sum.splits)
  note A = step_written [OF na s1]
  note B = Cons.IH [OF nacts rest]
  from A B show ?case by (elim conjE disjE) auto
qed

lemma thread_step_env_only_written:
  "(thread_step env now s)\<lparr>written := ws\<rparr> = (thread_step env' now s)\<lparr>written := ws\<rparr>"
  by (auto simp: thread_step_def run_close_def split: option.splits thread_state.splits)

lemma pending_inv_handle:
  assumes "pending_inv docs s" and "SaveImages_handle f s = Inr s'"
  shows "pending_inv docs s'"
proof (cases "is_recording s")
  case False
  with assms show ?thesis by (simp add: SaveImages_handle_def)
next
  case True
  with assms(2) obtain w w' ev where w: "worker s = Some w" "handle w f = Inr (w', ev)"
    and s': "s' = s\<lparr>worker := Some w', emitted := emitted s @ ev\<rparr>"
    by (auto simp: SaveImages_handle_def split: option.splits sum.splits)
  from assms(1) w s' handle_recording_information [OF w(2)] show ?thesis
    by (auto simp: pending_inv_def split: thread_state.splits)
qed

lemma pending_inv_thread_step:
  assumes "pending_inv docs s"
  shows "pending_inv docs (thread_step env now s)"
proof (cases "worker s")
  case None
  with assms show ?thesis by (simp add: thread_step_def)
next
  case (Some w)
  show ?thesis
  proof (cases "recordingThread s")
    case NotRunning
    with Some assms show ?thesis by (simp add: thread_step_def)
  next
    case Started
    with Some assms show ?thesis
      by (auto simp: thread_step_def run_enter_def pending_inv_def set_base_filename_def
            split: option.splits)
  next
    case (Looping l)
    show ?thesis
    proof (cases "is_recording s \<and> frames l < max_frames w")
      case False
      with Some Looping show ?thesis
        by (auto simp: thread_step_def run_close_def pending_inv_def)
    next
      case True
      with Some Looping assms show ?thesis
        by (auto simp: thread_step_def run_body_def pending_inv_def split: option.splits)
    qed
  qed
qed

lemma pending_inv_start:
  assumes "recordingThread s = NotRunning"
  shows "pending_inv (written s) (startRecording env im now s)"
  using assms by (auto simp: pending_inv_def startRecording_def Let_def split: option.splits)

lemma pending_inv_step:
  assumes "pending_inv docs s" and "\<not> is_start a" and "step env a s = Inr s'"
  shows "pending_inv docs s'"
proof (cases a)
  case (StartRecording im now)
  with assms(2) show ?thesis by simp
next
  case (HandleFrame f)
  with assms(1,3) show ?thesis by (auto intro: pending_inv_handle)
next
  case EndRecording
  with assms(1,3) show ?thesis
    by (auto simp: pending_inv_def endRecording_def split: thread_state.splits)
next
  case (ThreadStep now)
  with assms(1,3) show ?thesis by (auto intro: pending_inv_thread_step)
qed

lemma pending_inv_exec:
  assumes "pending_inv docs s" and "filter is_start acts = []" and "exec env acts s = Inr s'"
  shows "pending_inv docs s'"
  using assms
proof (induction acts arbitrary: s)
  case Nil
  then show ?case by simp
next
  case (Cons a acts)
  from Cons.prems(2) have na: "\<not> is_start a" and nacts: "filter is_start acts = []"
    by (auto split: if_splits)
  from Cons.prems(3) obtain s1 where s1: "step env a s = Inr s1" and rest: "exec env acts s1 = Inr s'"
    by (auto split: sum.splits)
  from Cons.IH [OF pending_inv_step [OF Cons.prems(1) na s1] nacts rest] show ?case .
qed

lemma session_pending:
  assumes "session env s0 im t0 acts s"
  shows "pending_inv (written s0) s"
proof -
  from assms have "recordingThread s0 = NotRunning" "filter is_start acts = []"
    "exec env acts (startRecording env im t0 s0) = Inr s"
    by (simp_all add: session_def)
  with pending_inv_start [of s0 env im t0] show ?thesis by (blast intro: pending_inv_exec)
qed

lemma run_leave_filename:
  "recording_information (run_leave now l w) =
     map_option (set_ended now (sint (ucast (frames l) :: 32 word)) (width l) (height l))
       (recording_information w)"
  "filename (set_ended now n wd ht r) = filename r"
  by (simp_all add: run_leave_def set_ended_def Let_def)

lemma end_of_life_written:
  assumes "pending_inv docs s" and "recordingThread s = Looping l" and "worker s = Some w"
    and "\<not> (is_recording s \<and> frames l < max_frames w)"
  shows "thread_step env now s = run_close env (run_leave now l w) (s\<lparr>is_recording := False\<rparr>)"
    and "recordingThread (thread_step env now s) = NotRunning"
    and "written (thread_step env now s) =
           (case recording_information (run_leave now l w) of
              None \<Rightarrow> docs
            | Some r' \<Rightarrow> if can_open env (filename r') then docs @ [(filename r', properties r')] else docs)"
    and "(case recording_information (run_leave now l w) of
            None \<Rightarrow> True
          | Some r' \<Rightarrow> filename r' = fw_filename (fileWriter l) @ ''.txt'')"
proof -
  show ts: "thread_step env now s = run_close env (run_leave now l w) (s\<lparr>is_recording := False\<rparr>)"
    using assms(2,3,4) by (auto simp: thread_step_def)
  show "recordingThread (thread_step env now s) = NotRunning"
    unfolding ts by (simp add: run_close_def)
  from assms(1,2,3) have d: "written s = docs"
    and f: "case recording_information w of None \<Rightarrow> True
            | Some r \<Rightarrow> filename r = fw_filename (fileWriter l) @ ''.txt''"
    by (simp_all add: pending_inv_def)
  from f show fn: "(case recording_information (run_leave now l w) of
            None \<Rightarrow> True
          | Some r' \<Rightarrow> filename r' = fw_filename (fileWriter l) @ ''.txt'')"
    by (simp add: run_leave_filename split: option.splits)
  show "written (thread_step env now s) =
           (case recording_information (run_leave now l w) of
              None \<Rightarrow> docs
            | Some r' \<Rightarrow> if can_open env (filename r') then docs @ [(filename r', properties r')] else docs)"
    unfolding ts using d fn
    by (auto simp: run_close_def RecordingInformation_dtor_def split: option.splits)
qed

lemma ended_session_any_env:
  assumes "factories env 0 = Some ser_factory"
  shows "session env (SaveImages_new example_configuration) example_imager 0
     [ThreadStep 1, HandleFrame (example_frame 1), ThreadStep 2, EndRecording] ended_session"
  unfolding session_def
  apply (intro conjI)
    apply (simp add: SaveImages_new_def)
   apply simp
  apply (simp add: startRecording_def writerFactory_def assms SaveImages_new_def Let_def
           example_configuration_def example_imager_def thread_step_def run_enter_def
           WriterThreadWorker_new_def ser_factory_def)
  apply (simp add: SaveImages_handle_def handle_def imageDataSize_def example_frame_def
           spsc_queue_new_def push_def run_body_def pop_def ended_session_def example_worker_def
           one_frame_locals_def example_information_def example_configuration_def
           RecordingInformation_new_def set_base_filename_def example_imager_def)
  apply (simp add: thread_step_def run_body_def pop_def endRecording_def)
  done

lemma closed_env_facts:
  "factories closed_env 0 = Some ser_factory"
  "can_open closed_env path = False"
  by (simp_all add: closed_env_def example_env_def)

lemma ended_session_leave:
  "recording_information (run_leave 2500 one_frame_locals (example_worker (Some \<lparr>max_size = 10, items = []\<rparr>)))
     = Some (set_ended 2500 1 10 10 example_information)"
  "filename (set_ended 2500 1 10 10 example_information) = ''out_cam.ser.txt''"
  by (simp_all add: run_leave_def example_worker_def one_frame_locals_def set_ended_def Let_def
        example_information_facts)

lemma idle_steps:
  assumes "recordingThread s = NotRunning" and "is_recording s = False"
  shows "exec env [HandleFrame f, ThreadStep now, EndRecording] s = Inr s"
proof -
  have "s\<lparr>is_recording := False\<rparr> = s" using assms(2) by (cases s) simp
  with assms show ?thesis
    by (simp add: SaveImages_handle_def thread_step_def endRecording_def split: option.splits)
qed

text \<open>
  C8. In a session started on an idle controller, whatever the steps that follow:
  while the recording thread runs, no document has been written; the step that leaves
  the loop releases the session's metadata, whose destructor appends one document, the
  finalised properties under the writer's filename with \<^verbatim>\<open>.txt\<close> appended, when
  that file opens, and nothing when it does not open or when the session has no
  metadata; and once the thread has stopped, no later step writes anything. So at most
  one document is written, by the step that ends the session. The destructor writes
  exactly when the filename is not empty and the file opens; a new session has no
  filename and \<^verbatim>\<open>set_base_filename\<close> gives it one. When the file does not open,
  nothing else changes: a step of the thread differs between two environments in the
  documents written only.
\<close>

theorem metadata_written_once:
  assumes "session env s0 im t0 acts s"
  shows "(recordingThread s \<noteq> NotRunning \<longrightarrow> written s = written s0) \<and>
         (recordingThread s = Looping l \<and> worker s = Some w \<and>
          \<not> (is_recording s \<and> frames l < max_frames w) \<longrightarrow>
            thread_step env now s = run_close env (run_leave now l w) (s\<lparr>is_recording := False\<rparr>) \<and>
            recordingThread (thread_step env now s) = NotRunning \<and>
            written (thread_step env now s) =
              (case recording_information (run_leave now l w) of
                 None \<Rightarrow> written s0
               | Some r' \<Rightarrow>
                   if can_open env (filename r') then written s0 @ [(filename r', properties r')]
                   else written s0) \<and>
            (case recording_information (run_leave now l w) of
               None \<Rightarrow> True
             | Some r' \<Rightarrow> filename r' = fw_filename (fileWriter l) @ ''.txt'')) \<and>
         (recordingThread s = NotRunning \<and> filter is_start later = [] \<and> exec env later s = Inr s' \<longrightarrow>
            written s' = written s \<and> recordingThread s' = NotRunning) \<and>
         (written s = written s0 \<or>
          (\<exists>r::RecordingInformation. written s = written s0 @ [(filename r, properties r)] \<and>
               filename r \<noteq> [] \<and> can_open env (filename r) \<and> recordingThread s = NotRunning)) \<and>
         RecordingInformation_dtor env docs r0 =
           (if filename r0 = [] then docs
            else if can_open env (filename r0) then docs @ [(filename r0, properties r0)]
            else docs) \<and>
         filename (RecordingInformation_new cfg im1 t1) = [] \<and>
         filename (set_base_filename name r0) \<noteq> [] \<and>
         (thread_step env now s1)\<lparr>written := ws\<rparr> = (thread_step env' now s1)\<lparr>written := ws\<rparr>"
proof -
  note p = session_pending [OF assms]
  have c1: "recordingThread s \<noteq> NotRunning \<longrightarrow> written s = written s0"
    using p by (auto simp: pending_inv_def split: thread_state.splits)
  have c2: "recordingThread s = Looping l \<and> worker s = Some w \<and>
          \<not> (is_recording s \<and> frames l < max_frames w) \<longrightarrow>
            thread_step env now s = run_close env (run_leave now l w) (s\<lparr>is_recording := False\<rparr>) \<and>
            recordingThread (thread_step env now s) = NotRunning \<and>
            written (thread_step env now s) =
              (case recording_information (run_leave now l w) of
                 None \<Rightarrow> written s0
               | Some r' \<Rightarrow>
                   if can_open env (filename r') then written s0 @ [(filename r', properties r')]
                   else written s0) \<and>
            (case recording_information (run_leave now l w) of
               None \<Rightarrow> True
             | Some r' \<Rightarrow> filename r' = fw_filename (fileWriter l) @ ''.txt'')"
    using end_of_life_written [OF p] by blast
  have c3: "recordingThread s = NotRunning \<and> filter is_start later = [] \<and> exec env later s = Inr s' \<longrightarrow>
            written s' = written s \<and> recordingThread s' = NotRunning"
    using exec_written [of later env s s'] by blast
  from assms have "filter is_start acts = []" and "exec env acts (startRecording env im t0 s0) = Inr s"
    by (simp_all add: session_def)
  from exec_written [OF this]
  have "written s = written (startRecording env im t0 s0) \<or>
        (\<exists>r::RecordingInformation. written s = written (startRecording env im t0 s0) @ [(filename r, properties r)] \<and>
             filename r \<noteq> [] \<and> can_open env (filename r) \<and> recordingThread s = NotRunning)"
    by blast
  moreover have "written (startRecording env im t0 s0) = written s0"
    by (simp add: startRecording_def Let_def split: option.splits)
  ultimately have c4: "written s = written s0 \<or>
        (\<exists>r::RecordingInformation. written s = written s0 @ [(filename r, properties r)] \<and>
             filename r \<noteq> [] \<and> can_open env (filename r) \<and> recordingThread s = NotRunning)"
    by simp
  have c5: "RecordingInformation_dtor env docs r0 =
           (if filename r0 = [] then docs
            else if can_open env (filename r0) then docs @ [(filename r0, properties r0)]
            else docs)"
    by (rule dtor_cases)
  have c6: "filename (RecordingInformation_new cfg im1 t1) = []" "filename (set_base_filename name r0) \<noteq> []"
    by (simp_all add: RecordingInformation_new_def set_base_filename_def)
  have c7: "(thread_step env now s1)\<lparr>written := ws\<rparr> = (thread_step env' now s1)\<lparr>written := ws\<rparr>"
    by (rule thread_step_env_only_written)
  show ?thesis
    by (intro conjI c1 c2 c3 c4 c5 c6 c7)
qed


theorem metadata_written_once_witness:
  "session example_env (SaveImages_new example_configuration) example_imager 0
     [ThreadStep 1, HandleFrame (example_frame 1), ThreadStep 2, EndRecording] ended_session \<and>
   recordingThread ended_session = Looping one_frame_locals \<and>
   written ended_session = [] \<and>
   written (thread_step example_env 2500 ended_session) =
     [(''out_cam.ser.txt'', properties (set_ended 2500 1 10 10 example_information))] \<and>
   recordingThread (thread_step example_env 2500 ended_session) = NotRunning \<and>
   exec example_env [HandleFrame (example_frame 2), ThreadStep 3000, EndRecording]
     (thread_step example_env 2500 ended_session) = Inr (thread_step example_env 2500 ended_session) \<and>
   session closed_env (SaveImages_new example_configuration) example_imager 0
     [ThreadStep 1, HandleFrame (example_frame 1), ThreadStep 2, EndRecording] ended_session \<and>
   written (thread_step closed_env 2500 ended_session) = [] \<and>
   (thread_step closed_env 2500 ended_session)\<lparr>written := []\<rparr> =
     (thread_step example_env 2500 ended_session)\<lparr>written := []\<rparr> \<and>
   RecordingInformation_dtor example_env []
       (RecordingInformation_new example_configuration example_imager 0) = [] \<and>
   RecordingInformation_dtor example_env []
       (set_base_filename ''ro_cam.ser''
          (RecordingInformation_new example_configuration example_imager 0)) = []"
proof -
  let ?w = "example_worker (Some \<lparr>max_size = 10, items = []\<rparr>)"
  let ?new = "RecordingInformation_new example_configuration example_imager 0"
  let ?end = "thread_step example_env 2500 ended_session"
  note open_case = metadata_written_once [OF ended_session_session,
      where l = one_frame_locals and w = ?w and now = 2500]
  note closed_case = metadata_written_once [OF ended_session_any_env [OF closed_env_facts(1)],
      where l = one_frame_locals and w = ?w and now = 2500]
  have pre: "recordingThread ended_session = Looping one_frame_locals \<and>
      worker ended_session = Some ?w \<and>
      \<not> (is_recording ended_session \<and> frames one_frame_locals < max_frames ?w)"
    by (simp add: ended_session_facts)
  note open_end = open_case [THEN conjunct2, THEN conjunct1, THEN mp, OF pre]
  note closed_end = closed_case [THEN conjunct2, THEN conjunct1, THEN mp, OF pre]
  have c1: "written ended_session = []"
    using open_case [THEN conjunct1] by (simp add: ended_session_facts example_idle)
  have c2: "written ?end = [(''out_cam.ser.txt'', properties (set_ended 2500 1 10 10 example_information))]"
    using open_end [THEN conjunct2, THEN conjunct2, THEN conjunct1]
    by (simp add: ended_session_leave example_information_facts example_idle)
  have c3: "recordingThread ?end = NotRunning"
    by (rule open_end [THEN conjunct2, THEN conjunct1])
  have c4: "written (thread_step closed_env 2500 ended_session) = []"
    using closed_end [THEN conjunct2, THEN conjunct2, THEN conjunct1]
    by (simp add: ended_session_leave closed_env_facts example_idle)
  have "is_recording ?end = False"
    unfolding open_end [THEN conjunct1] by (simp add: run_close_def)
  with c3 have run: "exec example_env [HandleFrame (example_frame 2), ThreadStep 3000, EndRecording] ?end = Inr ?end"
    by (rule idle_steps)
  have c5: "(thread_step closed_env 2500 ended_session)\<lparr>written := []\<rparr> = ?end\<lparr>written := []\<rparr>"
    by (rule closed_case [THEN conjunct2, THEN conjunct2, THEN conjunct2, THEN conjunct2,
          THEN conjunct2, THEN conjunct2, THEN conjunct2])
  have c6: "RecordingInformation_dtor example_env [] ?new = []"
    by (simp add: dtor_cases RecordingInformation_new_def)
  have c7: "RecordingInformation_dtor example_env [] (set_base_filename ''ro_cam.ser'' ?new) = []"
    by (simp add: dtor_cases set_base_filename_def example_env_def)
  show ?thesis
    by (intro conjI ended_session_session ended_session_facts(1) c1 c2 c3 run
          ended_session_any_env [OF closed_env_facts(1)] c4 c5 c6 c7)
qed

section \<open>Finalising the session\<close>

lemma ucast_frames: "(ucast (of_nat n :: 64 word) :: 32 word) = of_nat n"
proof -
  have "(ucast (word_of_int (int n) :: 64 word) :: 32 word) = word_of_int (int n)"
    by (rule ucast_down_wi) (simp add: is_down)
  then show ?thesis by simp
qed

lemma sint_frames: "n < 2 ^ 31 \<Longrightarrow> sint (of_nat n :: 32 word) = int n"
  by (simp add: signed_of_nat signed_take_bit_int_eq_self)

lemma int_of_frames:
  "n < 2 ^ 31 \<Longrightarrow> sint (ucast (of_nat n :: 64 word) :: 32 word) = int n"
  by (simp only: ucast_frames sint_frames)



text \<open>
  C6 (as the code has it). When the whole seconds elapsed are 0, the division is
  carried out all the same, with no guard and no fallback: the \<^verbatim>\<open>mean-fps\<close>
  recorded is not-a-number when no frame was written and plus infinity otherwise.
\<close>

theorem mean_fps_short_session:
  assumes "session env s0 im t0 acts s" and "recordingThread s = Looping l" and "worker s = Some w"
    and "recording_information w = Some r"
    and "\<not> (is_recording s \<and> frames l < max_frames w)"
    and "length (fw_frames (fileWriter l)) < 2 ^ 31"
    and "secsTo t0 now = 0"
  shows "\<exists>r'. recording_information (run_leave now l w) = Some r' \<and>
           thread_step env now s = run_close env (run_leave now l w) (s\<lparr>is_recording := False\<rparr>) \<and>
           properties r' ''mean-fps'' =
             Some (VDouble (if fw_frames (fileWriter l) = [] then NaN else PosInf))"
proof -
  from session_loop_inv [OF assms(1)] assms(2,3,4)
  have fr: "frames l = of_nat (length (fw_frames (fileWriter l)))"
    by (auto simp: loop_inv_def)
  have st: "started r = t0" by (rule session_started [OF assms(1,2,3,4)])
  have tf: "sint (ucast (frames l) :: 32 word) = int (length (fw_frames (fileWriter l)))"
    unfolding fr by (rule int_of_frames [OF assms(6)])
  let ?r = "set_ended now (int (length (fw_frames (fileWriter l)))) (width l) (height l) r"
  have r': "recording_information (run_leave now l w) = Some ?r"
    using assms(4) tf by (simp add: run_leave_def)
  have ts: "thread_step env now s = run_close env (run_leave now l w) (s\<lparr>is_recording := False\<rparr>)"
    using assms(2,3,5) by (auto simp: thread_step_def)
  have "properties ?r ''mean-fps'' =
      Some (VDouble (if fw_frames (fileWriter l) = [] then NaN else PosInf))"
    using assms(7) by (simp add: set_ended_def Let_def double_div_def st)
  with r' ts show ?thesis by blast
qed

theorem mean_fps_short_session_witness:
  "session example_env (SaveImages_new example_configuration) example_imager 0
     [ThreadStep 1, HandleFrame (example_frame 1), ThreadStep 2, EndRecording] ended_session \<and>
   secsTo 0 500 = 0 \<and>
   (\<exists>r'. recording_information
            (run_leave 500 one_frame_locals (example_worker (Some \<lparr>max_size = 10, items = []\<rparr>))) = Some r' \<and>
         properties r' ''mean-fps'' = Some (VDouble PosInf))"
proof -
  let ?w = "example_worker (Some \<lparr>max_size = 10, items = []\<rparr>)"
  have e: "secsTo 0 500 = 0"
    by (simp add: secsTo_def)
  from mean_fps_short_session [OF ended_session_session ended_session_facts e]
  obtain r' where "recording_information (run_leave 500 one_frame_locals ?w) = Some r'"
    and "properties r' ''mean-fps'' =
           Some (VDouble (if fw_frames (fileWriter one_frame_locals) = [] then NaN else PosInf))"
    by blast
  then have c: "\<exists>r'. recording_information (run_leave 500 one_frame_locals ?w) = Some r' \<and>
         properties r' ''mean-fps'' = Some (VDouble PosInf)"
    by (simp add: one_frame_locals_def)
  show ?thesis by (intro conjI ended_session_session e c)
qed

text \<open>
  A session of half a second: the elapsed whole seconds are 0 and the division is made,
  giving plus infinity for 5 frames, where a floor of one second would give 5, and
  not-a-number for no frame.
\<close>

theorem division_by_zero_counterexample:
  "secsTo 0 500 = 0 \<and>
   properties (set_ended 500 5 10 10 example_information) ''mean-fps'' = Some (VDouble PosInf) \<and>
   properties (set_ended 500 0 (- 1) (- 1) example_information) ''mean-fps'' = Some (VDouble NaN)"
  by (simp add: set_ended_def secsTo_def double_div_def example_information_facts)

text \<open>
  C10. When a session with metadata leaves its loop without having written a frame, it
  is finalised with \<^verbatim>\<open>total-frames\<close> 0 and with \<^verbatim>\<open>width\<close> and \<^verbatim>\<open>height\<close> \<open>-1\<close>.
\<close>

theorem no_frames_written:
  assumes "session env s0 im t0 acts s" and "recordingThread s = Looping l" and "worker s = Some w"
    and "recording_information w = Some r"
    and "\<not> (is_recording s \<and> frames l < max_frames w)"
    and "fw_frames (fileWriter l) = []"
  shows "\<exists>r'. recording_information (run_leave now l w) = Some r' \<and>
           thread_step env now s = run_close env (run_leave now l w) (s\<lparr>is_recording := False\<rparr>) \<and>
           properties r' ''total-frames'' = Some (VInt 0) \<and>
           properties r' ''width'' = Some (VInt (- 1)) \<and>
           properties r' ''height'' = Some (VInt (- 1))"
proof -
  from session_loop_inv [OF assms(1)] assms(2,3,4,6)
  have fr: "frames l = 0" and wh: "width l = - 1" "height l = - 1"
    by (auto simp: loop_inv_def)
  let ?r = "set_ended now 0 (- 1) (- 1) r"
  have r': "recording_information (run_leave now l w) = Some ?r"
    using assms(4) fr wh by (simp add: run_leave_def)
  have ts: "thread_step env now s = run_close env (run_leave now l w) (s\<lparr>is_recording := False\<rparr>)"
    using assms(2,3,5) by (auto simp: thread_step_def)
  have "properties ?r ''total-frames'' = Some (VInt 0)" "properties ?r ''width'' = Some (VInt (- 1))"
    "properties ?r ''height'' = Some (VInt (- 1))"
    by (simp_all add: set_ended_def Let_def)
  with r' ts show ?thesis by blast
qed

theorem no_frames_written_witness:
  "session example_env (SaveImages_new example_configuration) example_imager 0
     [ThreadStep 1, EndRecording] empty_session \<and>
   recordingThread empty_session = Looping no_frame_locals \<and>
   worker empty_session = Some (example_worker None) \<and>
   fw_frames (fileWriter no_frame_locals) = [] \<and>
   (\<exists>r'. recording_information (run_leave 700 no_frame_locals (example_worker None)) = Some r' \<and>
         properties r' ''total-frames'' = Some (VInt 0) \<and>
         properties r' ''width'' = Some (VInt (- 1)) \<and>
         properties r' ''height'' = Some (VInt (- 1)))"
proof -
  from no_frames_written [OF empty_session_session empty_session_facts, of 700]
  have c: "\<exists>r'. recording_information (run_leave 700 no_frame_locals (example_worker None)) = Some r' \<and>
         properties r' ''total-frames'' = Some (VInt 0) \<and>
         properties r' ''width'' = Some (VInt (- 1)) \<and>
         properties r' ''height'' = Some (VInt (- 1))"
    by blast
  show ?thesis
    by (intro conjI empty_session_session empty_session_facts(1,2,5) c)
qed

section \<open>The finished signal\<close>

lemma count_list_replicate_same: "count_list (replicate n x) x = n"
  by (induction n) simp_all

lemma handle_emits_drops:
  "handle w f = Inr (w', ev) \<Longrightarrow> count_list ev Finished = 0"
  by (auto simp: handle_def push_def split: option.splits if_splits)

lemma SaveImages_handle_finished:
  assumes "SaveImages_handle f s = Inr s'"
  shows "count_list (emitted s') Finished = count_list (emitted s) Finished \<and>
         recordingThread s' = recordingThread s \<and> finished_connections s' = finished_connections s"
proof (cases "is_recording s")
  case False
  with assms show ?thesis by (simp add: SaveImages_handle_def)
next
  case True
  with assms obtain w w' ev where "handle w f = Inr (w', ev)"
    and "s' = s\<lparr>worker := Some w', emitted := emitted s @ ev\<rparr>"
    by (auto simp: SaveImages_handle_def split: option.splits sum.splits)
  with handle_emits_drops [of w f w' ev] show ?thesis by simp
qed

lemma thread_step_finished:
  "finished_connections (thread_step env now s) = finished_connections s \<and>
   (recordingThread s = NotRunning \<longrightarrow>
      recordingThread (thread_step env now s) = NotRunning \<and>
      count_list (emitted (thread_step env now s)) Finished = count_list (emitted s) Finished) \<and>
   (recordingThread s \<noteq> NotRunning \<longrightarrow>
      (recordingThread (thread_step env now s) \<noteq> NotRunning \<and>
       count_list (emitted (thread_step env now s)) Finished = count_list (emitted s) Finished) \<or>
      (recordingThread (thread_step env now s) = NotRunning \<and>
       count_list (emitted (thread_step env now s)) Finished =
         count_list (emitted s) Finished + Suc (finished_connections s)))"
proof (cases "worker s")
  case None
  then show ?thesis by (simp add: thread_step_def)
next
  case (Some w)
  show ?thesis
  proof (cases "recordingThread s")
    case NotRunning
    with Some show ?thesis by (simp add: thread_step_def)
  next
    case Started
    with Some show ?thesis by (simp add: thread_step_def run_enter_def)
  next
    case (Looping l)
    show ?thesis
    proof (cases "is_recording s \<and> frames l < max_frames w")
      case True
      with Some Looping show ?thesis
        by (auto simp: thread_step_def run_body_def split: option.splits)
    next
      case False
      with Some Looping show ?thesis
        by (auto simp: thread_step_def run_close_def count_list_replicate_same)
    qed
  qed
qed

lemma step_finished:
  assumes "\<not> is_start a" and "step env a s = Inr s'"
  shows "finished_connections s' = finished_connections s \<and>
   (recordingThread s = NotRunning \<longrightarrow>
      recordingThread s' = NotRunning \<and>
      count_list (emitted s') Finished = count_list (emitted s) Finished) \<and>
   (recordingThread s \<noteq> NotRunning \<longrightarrow>
      (recordingThread s' \<noteq> NotRunning \<and>
       count_list (emitted s') Finished = count_list (emitted s) Finished) \<or>
      (recordingThread s' = NotRunning \<and>
       count_list (emitted s') Finished = count_list (emitted s) Finished + Suc (finished_connections s)))"
proof (cases a)
  case (StartRecording im now)
  with assms(1) show ?thesis by simp
next
  case (HandleFrame f)
  with assms(2) SaveImages_handle_finished [of f s s'] show ?thesis by auto
next
  case EndRecording
  with assms(2) show ?thesis by (auto simp: endRecording_def)
next
  case (ThreadStep now)
  with assms(2) thread_step_finished [of env now s] show ?thesis by auto
qed

lemma exec_finished:
  assumes "filter is_start acts = []" and "exec env acts s = Inr s'"
  shows "finished_connections s' = finished_connections s \<and>
   (recordingThread s = NotRunning \<longrightarrow>
      recordingThread s' = NotRunning \<and>
      count_list (emitted s') Finished = count_list (emitted s) Finished) \<and>
   (recordingThread s \<noteq> NotRunning \<longrightarrow>
      (recordingThread s' \<noteq> NotRunning \<and>
       count_list (emitted s') Finished = count_list (emitted s) Finished) \<or>
      (recordingThread s' = NotRunning \<and>
       count_list (emitted s') Finished = count_list (emitted s) Finished + Suc (finished_connections s)))"
  using assms
proof (induction acts arbitrary: s)
  case Nil
  then show ?case by simp
next
  case (Cons a acts)
  from Cons.prems(1) have na: "\<not> is_start a" and nacts: "filter is_start acts = []"
    by (auto split: if_splits)
  from Cons.prems(2) obtain s1 where s1: "step env a s = Inr s1" and rest: "exec env acts s1 = Inr s'"
    by (auto split: sum.splits)
  note A = step_finished [OF na s1]
  note B = Cons.IH [OF nacts rest]
  show ?case
  proof (cases "recordingThread s = NotRunning")
    case True
    with A B show ?thesis by simp
  next
    case False
    show ?thesis
    proof (cases "recordingThread s1 = NotRunning")
      case True
      with False A B show ?thesis by simp
    next
      case n1: False
      with False A B show ?thesis by auto
    qed
  qed
qed

text \<open>
  How many times \<^verbatim>\<open>finished\<close> is emitted. A session started on an idle controller
  with a writer configured emits none while its thread runs. When the flag has been
  cleared by \<^verbatim>\<open>endRecording\<close>, or the ceiling reached, the next step of the thread
  ends the session: it clears the flag, stops the thread and emits \<^verbatim>\<open>finished\<close>
  once from \<^verbatim>\<open>run\<close> and once more for every connection from the thread's
  \<^verbatim>\<open>finished\<close> to \<^verbatim>\<open>SaveImages::finished\<close>. Every \<^verbatim>\<open>startRecording\<close> makes
  that connection again and none is ever removed, so the count grows by one with every
  session of the controller.
\<close>

lemma finished_count_of_session:
  assumes "session env s0 im t0 acts s" and "writerFactory env (configuration s0) \<noteq> None"
  shows "count_list (emitted s) Finished =
           count_list (emitted s0) Finished +
             (if recordingThread s = NotRunning then finished_connections s0 + 2 else 0) \<and>
         (\<forall>l w. recordingThread s = Looping l \<and> worker s = Some w \<and>
                 (\<not> is_recording s \<or> \<not> frames l < max_frames w) \<longrightarrow>
            recordingThread (thread_step env now s) = NotRunning \<and>
            \<not> is_recording (thread_step env now s) \<and>
            emitted (thread_step env now s) =
              emitted s @ replicate (finished_connections s0 + 2) Finished)"
proof -
  let ?s1 = "startRecording env im t0 s0"
  from assms(2) have s1: "recordingThread ?s1 = Started" "emitted ?s1 = emitted s0"
    "finished_connections ?s1 = Suc (finished_connections s0)"
    by (auto simp: startRecording_def Let_def)
  from assms(1) have "filter is_start acts = []" and "exec env acts ?s1 = Inr s"
    by (simp_all add: session_def)
  note E = exec_finished [OF this]
  from E s1 have c: "finished_connections s = Suc (finished_connections s0)" by simp
  from E s1 have count: "count_list (emitted s) Finished =
           count_list (emitted s0) Finished +
             (if recordingThread s = NotRunning then finished_connections s0 + 2 else 0)"
    by auto
  have live: "recordingThread (thread_step env now s) = NotRunning \<and>
            \<not> is_recording (thread_step env now s) \<and>
            emitted (thread_step env now s) =
              emitted s @ replicate (finished_connections s0 + 2) Finished"
    if "recordingThread s = Looping l" "worker s = Some w"
      "\<not> is_recording s \<or> \<not> frames l < max_frames w" for l w
    using that c by (auto simp: thread_step_def run_close_def)
  from count live show ?thesis by blast
qed

text \<open>
  C4. The claim does not hold of the code: a session that ends emits \<^verbatim>\<open>finished\<close>
  more than once. On a new controller, a session ended by \<^verbatim>\<open>endRecording\<close> emits
  it twice, and so does a session that ends by itself at a ceiling of one frame, with
  no call of \<^verbatim>\<open>endRecording\<close>; a second session on the same controller emits it
  three times, for the connection left behind by the first.
\<close>

theorem finished_emitted_again:
  "map_sum id emitted
     (exec example_env [StartRecording example_imager 0, ThreadStep 1, EndRecording, ThreadStep 2]
        (SaveImages_new example_configuration))
   = Inr [Recording ''out_cam.ser'', Finished, Finished] \<and>
   map_sum id emitted
     (exec example_env
        [StartRecording example_imager 0, ThreadStep 1, HandleFrame (example_frame 1), ThreadStep 2,
         ThreadStep 3]
        (SaveImages_new (example_configuration\<lparr>recording_frames_limit := 1\<rparr>)))
   = Inr [Recording ''out_cam.ser'', SavedFrames 1, Finished, Finished] \<and>
   map_sum id emitted
     (exec example_env
        [StartRecording example_imager 0, ThreadStep 1, EndRecording, ThreadStep 2,
         StartRecording example_imager 10, ThreadStep 11, EndRecording, ThreadStep 12]
        (SaveImages_new example_configuration))
   = Inr [Recording ''out_cam.ser'', Finished, Finished,
          Recording ''out_cam.ser'', Finished, Finished, Finished]"
proof -
  note defs = startRecording_def writerFactory_def example_env_def example_configuration_def
    SaveImages_new_def example_imager_def Let_def thread_step_def run_enter_def
    WriterThreadWorker_new_def endRecording_def run_close_def run_leave_def ser_factory_def
    run_body_def SaveImages_handle_def handle_def imageDataSize_def spsc_queue_new_def
    push_def pop_def example_frame_def
  have one: "map_sum id emitted
     (exec example_env [StartRecording example_imager 0, ThreadStep 1, EndRecording, ThreadStep 2]
        (SaveImages_new example_configuration))
   = Inr [Recording ''out_cam.ser'', Finished, Finished]"
    by (simp add: defs)
  have ceiling: "map_sum id emitted
     (exec example_env
        [StartRecording example_imager 0, ThreadStep 1, HandleFrame (example_frame 1), ThreadStep 2,
         ThreadStep 3]
        (SaveImages_new (example_configuration\<lparr>recording_frames_limit := 1\<rparr>)))
   = Inr [Recording ''out_cam.ser'', SavedFrames 1, Finished, Finished]"
    by (simp add: defs)
  have two: "map_sum id emitted
     (exec example_env
        [StartRecording example_imager 0, ThreadStep 1, EndRecording, ThreadStep 2,
         StartRecording example_imager 10, ThreadStep 11, EndRecording, ThreadStep 12]
        (SaveImages_new example_configuration))
   = Inr [Recording ''out_cam.ser'', Finished, Finished,
          Recording ''out_cam.ser'', Finished, Finished, Finished]"
    by (simp add: defs)
  show ?thesis by (intro conjI one ceiling two)
qed


section \<open>A consumer that keeps up\<close>

lemma unat_frames_Suc:
  fixes x y :: "64 word"
  assumes "x < y"
  shows "unat (x + 1) = Suc (unat x)"
proof -
  from assms have "x \<noteq> - 1" by (metis word_order.extremum_strict)
  then have "1 + x \<noteq> 0" by (metis add.commute add_eq_0_iff)
  then show ?thesis by (simp add: unatSuc add.commute)
qed

lemma fifo_inv_handle:
  assumes inv: "fifo_inv C maxf mm ev0 name fc e n prev s"
    and room: "n < C" and below: "length prev < unat maxf"
    and first: "prev = [] \<longrightarrow> imageDataSize f \<noteq> 0 \<and> unat (mm div imageDataSize f) = C"
  shows "\<exists>s'. SaveImages_handle f s = Inr s' \<and>
           fifo_inv C maxf mm ev0 name fc e (Suc n) (prev @ [f]) s'"
proof -
  from inv obtain w where w: "worker s = Some w"
    by (auto simp: fifo_inv_def split: option.splits)
  from inv below have rec: "is_recording s"
    by (auto simp: fifo_inv_def split: thread_state.splits)
  from inv have n: "n \<le> length prev" by (simp add: fifo_inv_def)
  have "\<exists>q'. handle w f = Inr (w\<lparr>framesQueue := Some q'\<rparr>, []) \<and> max_size q' = C \<and>
          items q' = drop (length prev - n) prev @ [f]"
  proof (cases "framesQueue w")
    case None
    with inv w have p: "prev = []" by (simp add: fifo_inv_def)
    with first have sz: "imageDataSize f \<noteq> 0" and c: "unat (mm div imageDataSize f) = C" by simp_all
    from inv w have mm: "max_memory w = mm" by (simp add: fifo_inv_def)
    from None sz c mm room p show ?thesis
      by (intro exI [of _ "\<lparr>max_size = C, items = [f]\<rparr>"])
         (simp add: handle_def push_def spsc_queue_new_def)
  next
    case (Some q)
    with inv w have q: "max_size q = C" "items q = drop (length prev - n) prev"
      by (simp_all add: fifo_inv_def)
    with n room have "length (items q) < max_size q" by simp
    with Some q show ?thesis
      by (intro exI [of _ "q\<lparr>items := items q @ [f]\<rparr>"]) (simp add: handle_queue_present)
  qed
  then obtain q' where h: "handle w f = Inr (w\<lparr>framesQueue := Some q'\<rparr>, [])"
    and q': "max_size q' = C" "items q' = drop (length prev - n) prev @ [f]"
    by blast
  let ?s' = "s\<lparr>worker := Some (w\<lparr>framesQueue := Some q'\<rparr>), emitted := emitted s @ []\<rparr>"
  have run: "SaveImages_handle f s = Inr ?s'"
    using rec w h by (simp add: SaveImages_handle_def)
  have "fifo_inv C maxf mm ev0 name fc e (Suc n) (prev @ [f]) ?s'"
    using inv w n q' below
    by (auto simp: fifo_inv_def Suc_diff_le split: thread_state.splits)
  with run show ?thesis by blast
qed


lemma drop_Cons_nth:
  assumes "drop k xs = y # ys"
  shows "take (Suc k) xs = take k xs @ [y]" and "drop (Suc k) xs = ys" and "k < length xs"
proof -
  from assms show k: "k < length xs" by (cases "k < length xs") simp_all
  from assms k have "xs ! k = y" by (metis nth_via_drop)
  with k show "take (Suc k) xs = take k xs @ [y]" by (simp add: take_Suc_conv_app_nth)
  from assms show "drop (Suc k) xs = ys" by (metis drop_Suc tl_drop list.sel(3))
qed

lemma fifo_inv_LoopingI:
  assumes "worker s = Some w" and "recordingThread s = Looping l" and "n \<le> length prev"
    and "k = length prev - n"
    and "finished_connections s = fc" and "dropped_frames w = 0" and "max_frames w = maxf"
    and "max_memory w = mm" and "fileWriterFactory w (configuration s) = name"
    and "framesQueue w = Some q" and "max_size q = C" and "items q = drop k prev"
    and "is_recording s" and "fw_frames (fileWriter l) = take k prev" and "unat (frames l) = k"
    and "emitted s = ev0 @ Recording name # map (\<lambda>k. SavedFrames (1 + of_nat k)) [0..<k]"
  shows "fifo_inv C maxf mm ev0 name fc True n prev s"
  using assms by (simp add: fifo_inv_def)

lemma fifo_inv_thread_step:
  assumes inv: "fifo_inv C maxf mm ev0 name fc e n prev s"
    and below: "length prev \<le> unat maxf"
  shows "fifo_inv C maxf mm ev0 name fc True (if e then n - 1 else n) prev (thread_step env now s)"
proof -
  from inv obtain w where w: "worker s = Some w"
    by (auto simp: fifo_inv_def split: option.splits)
  from inv have n: "n \<le> length prev" by (simp add: fifo_inv_def)
  define k where "k = length prev - n"
  show ?thesis
  proof (cases "recordingThread s")
    case NotRunning
    with inv w show ?thesis by (auto simp: thread_step_def fifo_inv_def)
  next
    case Started
    with inv w show ?thesis
      by (auto simp: thread_step_def run_enter_def fifo_inv_def split: option.splits)
  next
    case (Looping l)
    with inv have e: "e" and rec: "is_recording s"
      and fw: "fw_frames (fileWriter l) = take k prev"
      and fr: "unat (frames l) = k"
      and ev: "emitted s = ev0 @ Recording name # map (\<lambda>k. SavedFrames (1 + of_nat k)) [0..<k]"
      by (simp_all add: fifo_inv_def k_def)
    from inv w have mf: "max_frames w = maxf" and mm: "max_memory w = mm"
      and dr: "dropped_frames w = 0" and nm: "fileWriterFactory w (configuration s) = name"
      and fc: "finished_connections s = fc"
      by (simp_all add: fifo_inv_def)
    have fr': "frames l = of_nat k" using fr [symmetric] by simp
    show ?thesis
    proof (cases "frames l < max_frames w")
      case False
      then have "unat maxf \<le> k" using fr mf by (simp add: word_less_nat_alt)
      with below n have n0: "n = 0" and full: "length prev = unat maxf" by (simp_all add: k_def)
      from False w Looping have ts: "thread_step env now s =
          run_close env (run_leave now l w) (s\<lparr>is_recording := False\<rparr>)"
        by (simp add: thread_step_def)
      from ev n0 have ev': "emitted s = ev0 @ Recording name #
          map (\<lambda>k. SavedFrames (1 + of_nat k)) [0..<length prev]"
        by (simp add: k_def)
      from inv w n0 have qq: "case framesQueue w of None \<Rightarrow> prev = []
           | Some q \<Rightarrow> max_size q = C \<and> items q = drop (length prev) prev"
        by (auto simp: fifo_inv_def split: option.splits)
      show ?thesis
        unfolding ts using w e n0 full ev' mf mm dr nm fc qq
        by (simp add: fifo_inv_def run_close_def run_leave_def split: option.splits)
    next
      case True
      with w Looping rec have ts: "thread_step env now s = run_body w l s"
        by (simp add: thread_step_def)
      show ?thesis
      proof (cases "case framesQueue w of None \<Rightarrow> None | Some q \<Rightarrow> pop q")
        case None
        then have same: "run_body w l s = s" by (simp add: run_body_def)
        from None inv w n have "n = 0"
          by (auto simp: fifo_inv_def pop_def split: option.splits list.splits)
        with inv e show ?thesis unfolding ts same by simp
      next
        case (Some p)
        then obtain x q q' where q: "framesQueue w = Some q" and p: "pop q = Some (x, q')"
          by (cases p) (auto split: option.splits)
        from p obtain rest where it: "items q = x # rest" and q': "q' = q\<lparr>items := rest\<rparr>"
          by (auto simp: pop_def split: list.splits)
        from inv w q have cap: "max_size q = C" and items: "items q = drop k prev"
          by (simp_all add: fifo_inv_def k_def)
        from items it have d: "drop k prev = x # rest" by simp
        note D = drop_Cons_nth [OF d]
        from D(3) n have n1: "1 \<le> n" by (simp add: k_def)
        then have k': "Suc k = length prev - (n - 1)" using n by (simp add: k_def)
        have fs: "unat (frames l + 1) = Suc k"
          using unat_frames_Suc [OF True] fr by simp
        have sv: "frames l + 1 = 1 + of_nat k" using fr' by simp
        let ?l' = "\<lparr>fileWriter = (fileWriter l)\<lparr>fw_frames := fw_frames (fileWriter l) @ [x]\<rparr>,
                 frames = frames l + 1,
                 width = (if width l = - 1 \<or> height l = - 1 then cols x else width l),
                 height = (if width l = - 1 \<or> height l = - 1 then rows x else height l)\<rparr>"
        let ?s' = "s\<lparr>worker := Some (w\<lparr>framesQueue := Some q'\<rparr>),
              emitted := emitted s @ [SavedFrames (frames l + 1)],
              recordingThread := Looping ?l'\<rparr>"
        have body: "run_body w l s = ?s'"
          using q p by (simp add: run_body_def)
        have "fifo_inv C maxf mm ev0 name fc True (n - 1) prev ?s'"
        proof (rule fifo_inv_LoopingI [where k = "Suc k" and q = q' and l = ?l'
              and w = "w\<lparr>framesQueue := Some q'\<rparr>"])
          show "n - 1 \<le> length prev" using n by simp
          show "Suc k = length prev - (n - 1)" by (rule k')
          show "items q' = drop (Suc k) prev" using q' D(2) by simp
          show "fw_frames (fileWriter ?l') = take (Suc k) prev" using fw D(1) by simp
          show "unat (frames ?l') = Suc k" using fs by simp
          show "emitted ?s' = ev0 @ Recording name # map (\<lambda>k. SavedFrames (1 + of_nat k)) [0..<Suc k]"
            using ev sv by simp
        qed (simp_all add: fc dr mf mm nm cap q' rec)
        with e show ?thesis unfolding ts body by simp
      qed
    qed
  qed
qed


lemma fifo_inv_exec:
  assumes "fifo_inv C maxf mm ev0 name fc e n prev s"
    and "keeps_up C e n acts"
    and "length prev + length (arrivals acts) \<le> unat maxf"
    and "prev @ arrivals acts = f0 # fs"
    and "imageDataSize f0 \<noteq> 0" and "unat (mm div imageDataSize f0) = C"
  shows "\<exists>s'. exec env acts s = Inr s' \<and>
           fifo_inv C maxf mm ev0 name fc (run_entered e acts) (backlog e n acts)
             (prev @ arrivals acts) s'"
  using assms(1,2,3,4)
proof (induction acts arbitrary: e n prev s)
  case Nil
  then show ?case by simp
next
  case (Cons a acts)
  show ?case
  proof (cases a)
    case (StartRecording im now)
    with Cons.prems(2) show ?thesis by simp
  next
    case EndRecording
    with Cons.prems(2) show ?thesis by simp
  next
    case (HandleFrame f)
    from Cons.prems(2) HandleFrame have room: "n < C" and rest: "keeps_up C e (Suc n) acts"
      by simp_all
    from Cons.prems(3) HandleFrame have below: "length prev < unat maxf"
      and below': "length (prev @ [f]) + length (arrivals acts) \<le> unat maxf"
      by simp_all
    from Cons.prems(4) HandleFrame have all: "(prev @ [f]) @ arrivals acts = f0 # fs"
      by simp
    then have first: "prev = [] \<longrightarrow> imageDataSize f \<noteq> 0 \<and> unat (mm div imageDataSize f) = C"
      using assms(5,6) by auto
    from fifo_inv_handle [OF Cons.prems(1) room below first]
    obtain s1 where s1: "SaveImages_handle f s = Inr s1"
      and inv1: "fifo_inv C maxf mm ev0 name fc e (Suc n) (prev @ [f]) s1"
      by blast
    from Cons.IH [OF inv1 rest below' all] s1 HandleFrame show ?thesis by simp
  next
    case (ThreadStep now)
    from Cons.prems(2) ThreadStep have rest: "keeps_up C True (if e then n - 1 else n) acts"
      by simp
    from Cons.prems(3) ThreadStep have below: "length prev \<le> unat maxf"
      and below': "length prev + length (arrivals acts) \<le> unat maxf"
      by simp_all
    from Cons.prems(4) ThreadStep have all: "prev @ arrivals acts = f0 # fs" by simp
    note inv1 = fifo_inv_thread_step [OF Cons.prems(1) below, of env now]
    from Cons.IH [OF inv1 rest below' all] ThreadStep show ?thesis by simp
  qed
qed

lemma fifo_inv_start:
  assumes "recordingThread s0 = NotRunning"
    and "writerFactory env (configuration s0) = Some factory"
  shows "fifo_inv C
           (if recording_frames_limit (configuration s0) = 0 then 0x7FFFFFFFFFFFFFFF
            else recording_frames_limit (configuration s0))
           (max_memory_usage (configuration s0)) (emitted s0)
           (factory (imager_name im) (configuration s0)) (Suc (finished_connections s0))
           False 0 [] (startRecording env im t0 s0)"
  using assms
  by (simp add: fifo_inv_def startRecording_def Let_def WriterThreadWorker_new_def)

lemma bursty_schedule_facts:
  "arrivals bursty_schedule = example_frame 1 # [example_frame 2, example_frame 3]"
  "keeps_up 10 False 0 bursty_schedule"
  "backlog False 0 bursty_schedule = 0"
  "run_entered False bursty_schedule"
  by (simp_all add: bursty_schedule_def)

lemma example_capacity:
  "imageDataSize (example_frame 1) \<noteq> 0"
  "unat (max_memory_usage (configuration (SaveImages_new example_configuration)) div
         imageDataSize (example_frame 1)) = 10"
  by (simp_all add: imageDataSize_def example_frame_def SaveImages_new_def example_configuration_def)

text \<open>
  One schedule of this kind: the thread enters \<^verbatim>\<open>run\<close> and then takes a step
  after every frame submitted, with a queue that holds at least one frame.
\<close>

lemma keeps_up_step_per_frame:
  assumes "1 \<le> C"
  shows "keeps_up C False 0 (ThreadStep t1 # concat (map (\<lambda>f. [HandleFrame f, ThreadStep now]) fs))"
    and "backlog False 0 (ThreadStep t1 # concat (map (\<lambda>f. [HandleFrame f, ThreadStep now]) fs)) = 0"
    and "arrivals (ThreadStep t1 # concat (map (\<lambda>f. [HandleFrame f, ThreadStep now]) fs)) = fs"
  using assms by (induction fs) simp_all

text \<open>
  C3 (as the code has it). A session is started on an idle controller with a writer
  configured, and a schedule of submissions and steps of the recording thread follows,
  in any order, in which the consumer keeps up with the queue: the first frame has a
  byte size other than 0, which gives the queue its capacity, the memory budget divided
  by that size; every frame submitted finds fewer frames waiting than this capacity;
  and the frames are no more than the ceiling. Then no call fails and no frame is
  dropped; the frames not yet written wait in the queue, the others have been handed to
  the writer, all in the order of submission; and \<^verbatim>\<open>savedFrames\<close> has been
  emitted once for each frame written, with the counts 1, 2, ..., and nothing else but
  \<^verbatim>\<open>recording\<close> before them. So when no frame is left waiting, the frames saved
  are the frames submitted. The thread stops by itself only when the frames written
  have reached the ceiling, and then emits \<^verbatim>\<open>finished\<close>. Submissions are steps
  here: they exclude each other and run in the order of arrival.
\<close>

theorem consumer_keeps_up:
  assumes "recordingThread s0 = NotRunning"
    and "writerFactory env (configuration s0) = Some factory"
    and "arrivals acts = f # fs" and "imageDataSize f \<noteq> 0"
    and "keeps_up (unat (max_memory_usage (configuration s0) div imageDataSize f)) False 0 acts"
    and "length (f # fs) \<le> unat (if recording_frames_limit (configuration s0) = 0
                                   then 0x7FFFFFFFFFFFFFFF
                                   else recording_frames_limit (configuration s0))"
  shows "\<exists>s w. exec env (StartRecording im t0 # acts) s0 = Inr s \<and>
           worker s = Some w \<and> dropped_frames w = 0 \<and>
           queued w = drop (length (f # fs) - backlog False 0 acts) (f # fs) \<and>
           (case recordingThread s of
              Started \<Rightarrow> \<not> run_entered False acts \<and> is_recording s \<and> emitted s = emitted s0
            | Looping l \<Rightarrow>
                run_entered False acts \<and> is_recording s \<and>
                fw_frames (fileWriter l) = take (length (f # fs) - backlog False 0 acts) (f # fs) \<and>
                emitted s = emitted s0 @ Recording (factory (imager_name im) (configuration s0)) #
                  map (\<lambda>k. SavedFrames (1 + of_nat k)) [0..<length (f # fs) - backlog False 0 acts]
            | NotRunning \<Rightarrow>
                run_entered False acts \<and> \<not> is_recording s \<and> backlog False 0 acts = 0 \<and>
                length (f # fs) = unat (if recording_frames_limit (configuration s0) = 0
                                        then 0x7FFFFFFFFFFFFFFF
                                        else recording_frames_limit (configuration s0)) \<and>
                emitted s = emitted s0 @ Recording (factory (imager_name im) (configuration s0)) #
                  map (\<lambda>k. SavedFrames (1 + of_nat k)) [0..<length (f # fs)] @
                  Finished # replicate (Suc (finished_connections s0)) Finished)"
proof -
  let ?C = "unat (max_memory_usage (configuration s0) div imageDataSize f)"
  let ?maxf = "if recording_frames_limit (configuration s0) = 0 then 0x7FFFFFFFFFFFFFFF
               else recording_frames_limit (configuration s0)"
  let ?name = "factory (imager_name im) (configuration s0)"
  note start = fifo_inv_start [OF assms(1,2), of ?C im t0]
  have len: "length ([] :: frame list) + length (arrivals acts) \<le> unat ?maxf"
    using assms(3,6) by simp
  have all: "[] @ arrivals acts = f # fs" using assms(3) by simp
  from fifo_inv_exec [OF start assms(5) len all assms(4) refl, of env]
  obtain s where run: "exec env acts (startRecording env im t0 s0) = Inr s"
    and inv: "fifo_inv ?C ?maxf (max_memory_usage (configuration s0)) (emitted s0) ?name
                (Suc (finished_connections s0)) (run_entered False acts) (backlog False 0 acts)
                (f # fs) s"
    unfolding all by auto
  from inv obtain w where w: "worker s = Some w"
    by (auto simp: fifo_inv_def split: option.splits)
  from inv w have q: "queued w = drop (length (f # fs) - backlog False 0 acts) (f # fs)"
    and d: "dropped_frames w = 0"
    by (auto simp: fifo_inv_def queued_def split: option.splits)
  have "exec env (StartRecording im t0 # acts) s0 = Inr s" using run by simp
  moreover from inv have "case recordingThread s of
              Started \<Rightarrow> \<not> run_entered False acts \<and> is_recording s \<and> emitted s = emitted s0
            | Looping l \<Rightarrow>
                run_entered False acts \<and> is_recording s \<and>
                fw_frames (fileWriter l) = take (length (f # fs) - backlog False 0 acts) (f # fs) \<and>
                emitted s = emitted s0 @ Recording ?name #
                  map (\<lambda>k. SavedFrames (1 + of_nat k)) [0..<length (f # fs) - backlog False 0 acts]
            | NotRunning \<Rightarrow>
                run_entered False acts \<and> \<not> is_recording s \<and> backlog False 0 acts = 0 \<and>
                length (f # fs) = unat ?maxf \<and>
                emitted s = emitted s0 @ Recording ?name #
                  map (\<lambda>k. SavedFrames (1 + of_nat k)) [0..<length (f # fs)] @
                  Finished # replicate (Suc (finished_connections s0)) Finished"
    by (auto simp: fifo_inv_def split: thread_state.splits)
  ultimately show ?thesis using w d q by blast
qed


theorem consumer_keeps_up_witness:
  "recordingThread (SaveImages_new example_configuration) = NotRunning \<and>
   writerFactory example_env (configuration (SaveImages_new example_configuration)) = Some ser_factory \<and>
   arrivals bursty_schedule = [example_frame 1, example_frame 2, example_frame 3] \<and>
   imageDataSize (example_frame 1) \<noteq> 0 \<and>
   unat (max_memory_usage (configuration (SaveImages_new example_configuration)) div
         imageDataSize (example_frame 1)) = 10 \<and>
   keeps_up 10 False 0 bursty_schedule \<and>
   backlog False 0 bursty_schedule = 0 \<and>
   (\<exists>s w l.
      exec example_env (StartRecording example_imager 0 # bursty_schedule)
        (SaveImages_new example_configuration) = Inr s \<and>
      worker s = Some w \<and> dropped_frames w = 0 \<and> queued w = [] \<and>
      recordingThread s = Looping l \<and> is_recording s \<and>
      fw_frames (fileWriter l) = [example_frame 1, example_frame 2, example_frame 3] \<and>
      emitted s = [Recording ''out_cam.ser'', SavedFrames 1, SavedFrames 2, SavedFrames 3])"
proof -
  let ?s0 = "SaveImages_new example_configuration"
  have k: "keeps_up (unat (max_memory_usage (configuration ?s0) div imageDataSize (example_frame 1)))
             False 0 bursty_schedule"
    unfolding example_capacity(2) by (rule bursty_schedule_facts(2))
  have h: "length (example_frame 1 # [example_frame 2, example_frame 3])
      \<le> unat (if recording_frames_limit (configuration ?s0) = 0 then 0x7FFFFFFFFFFFFFFF
               else recording_frames_limit (configuration ?s0))"
    by (simp add: SaveImages_new_def example_configuration_def)
  have m: "unat (if recording_frames_limit (configuration ?s0) = 0 then 0x7FFFFFFFFFFFFFFF
               else recording_frames_limit (configuration ?s0)) = 5"
    by (simp add: SaveImages_new_def example_configuration_def)
  have u: "[0..<3] = [0, 1, 2]" by (simp add: upt_rec)
  have e: "\<exists>s w l.
      exec example_env (StartRecording example_imager 0 # bursty_schedule) ?s0 = Inr s \<and>
      worker s = Some w \<and> dropped_frames w = 0 \<and> queued w = [] \<and>
      recordingThread s = Looping l \<and> is_recording s \<and>
      fw_frames (fileWriter l) = [example_frame 1, example_frame 2, example_frame 3] \<and>
      emitted s = [Recording ''out_cam.ser'', SavedFrames 1, SavedFrames 2, SavedFrames 3]"
    using consumer_keeps_up [OF example_idle(1,2) bursty_schedule_facts(1) example_capacity(1) k h,
        where im = example_imager and ?t0.0 = 0]
    unfolding bursty_schedule_facts(3) m
    apply (elim exE conjE)
    subgoal for s w
      apply (rule exI [of _ s], rule exI [of _ w])
      apply (cases "recordingThread s")
        apply (simp_all add: bursty_schedule_facts(4) example_idle(3) u ser_factory_def
                 example_imager_def)
      apply (simp add: SaveImages_new_def example_configuration_def)
      done
    done
  have a: "arrivals bursty_schedule = [example_frame 1, example_frame 2, example_frame 3]"
    by (rule bursty_schedule_facts(1))
  show ?thesis
    by (intro conjI example_idle(1,2) a example_capacity bursty_schedule_facts(2,3) e)
qed

text \<open>
  With a budget of 1000 bytes and a frame of 2000 bytes the queue holds nothing: the
  frame is dropped although the thread takes a step right after the submission.
\<close>

theorem fast_consumer_counterexample:
  "exec example_env
     [StartRecording example_imager 0, ThreadStep 1,
      HandleFrame \<lparr>cols = 40, rows = 50, mat_total = 2000, mat_elemSize = 1, pixels = []\<rparr>,
      ThreadStep 2]
     (SaveImages_new example_configuration)
   = Inr \<lparr>configuration = example_configuration,
          worker = Some \<lparr>fileWriterFactory = ser_factory ''cam'',
                         framesQueue = Some \<lparr>max_size = 0, items = []\<rparr>,
                         max_frames = 5, max_memory = 1000, dropped_frames = 1,
                         recording_information =
                           Some (set_base_filename ''out_cam.ser''
                                   (RecordingInformation_new example_configuration example_imager 0))\<rparr>,
          is_recording = True,
          recordingThread = Looping \<lparr>fileWriter = \<lparr>fw_filename = ''out_cam.ser'', fw_frames = []\<rparr>,
                                     frames = 0, width = - 1, height = - 1\<rparr>,
          finished_connections = 1,
          emitted = [Recording ''out_cam.ser'', DroppedFrames 1],
          written = []\<rparr>"
  by (simp add: startRecording_def writerFactory_def example_env_def example_configuration_def
        SaveImages_new_def example_imager_def Let_def thread_step_def run_enter_def
        WriterThreadWorker_new_def run_body_def ser_factory_def SaveImages_handle_def
        handle_def imageDataSize_def spsc_queue_new_def push_def pop_def)

end
